theory Spec2Isabelle
  imports Complex_Main
begin

section \<open>Data model (types.ts)\<close>

text \<open>The enum \<open>Player\<close>: \<open>Player.X\<close> and \<open>Player.O\<close>.\<close>

datatype Player = Player_X | Player_O

type_synonym CellValue = "Player option"

datatype GameMode = PvP | PvCPU | PvOnline

datatype AiDifficulty = Beginner | Intermediate | Advanced

type_synonym SmallBoardState = "CellValue list"

type_synonym GameBoardState = "SmallBoardState list"

record SmallBoardStatus =
  winner :: "Player option"
  isDraw :: bool

text \<open>A move \<open>{boardIndex, cellIndex}\<close> is the pair \<open>(boardIndex, cellIndex)\<close>.\<close>

type_synonym Move = "nat \<times> nat"

record GameHistoryItem =
  hist_board :: GameBoardState
  hist_smallBoardStatuses :: "SmallBoardStatus list"
  hist_currentPlayer :: Player
  hist_nextBoardIndex :: "nat option"
  hist_lastMove :: "Move option"

record GameState =
  board :: GameBoardState
  smallBoardStatuses :: "SmallBoardStatus list"
  currentPlayer :: Player
  nextBoardIndex :: "nat option"
  globalWinner :: "Player option"
  isGlobalDraw :: bool
  history :: "GameHistoryItem list"
  moveCount :: int
  gameMode :: GameMode
  aiDifficulty :: AiDifficulty

datatype OnlineRole = HOST | GUEST

datatype OnlineState = IDLE | HOSTING | JOINING | CONNECTED | DISCONNECTED

text \<open>
  What a JavaScript evaluation can end in besides a value. \<open>TypeError\<close> is thrown when a
  property of \<open>undefined\<close> is read (an array read beyond the end gives \<open>undefined\<close>).
  \<open>SparseArray\<close> marks a write more than one place beyond the end of an array copy:
  JavaScript grows the array and leaves holes there; arrays with holes are not
  represented by lists, so the model stops at such a write and says so.
\<close>

datatype error = TypeError | SparseArray

text \<open>The array read \<open>xs[i]\<close>: \<open>None\<close> is JavaScript's \<open>undefined\<close>.\<close>

definition jsAt :: "'a list \<Rightarrow> nat \<Rightarrow> 'a option" where
  "jsAt xs i = (if i < length xs then Some (xs ! i) else None)"

text \<open>
  The array write \<open>xs[i] = v\<close> on a fresh copy \<open>[...xs]\<close>: a write at the index
  \<open>xs.length\<close> appends.
\<close>

definition jsSet :: "'a list \<Rightarrow> nat \<Rightarrow> 'a \<Rightarrow> error + 'a list" where
  "jsSet xs i v =
     (if i < length xs then Inr (xs[i := v])
      else if i = length xs then Inr (xs @ [v])
      else Inl SparseArray)"

definition opponentOf :: "Player \<Rightarrow> Player" where
  "opponentOf p = (if p = Player_X then Player_O else Player_X)"

text \<open>\<open>status.winner || status.isDraw\<close>: a mark is truthy, \<open>null\<close> is falsy.\<close>

definition decided :: "SmallBoardStatus \<Rightarrow> bool" where
  "decided status = (winner status \<noteq> None \<or> isDraw status)"

section \<open>Rules engine (gameLogic.ts)\<close>

definition WINNING_COMBINATIONS :: "(nat \<times> nat \<times> nat) list" where
  "WINNING_COMBINATIONS =
     [(0, 1, 2), (3, 4, 5), (6, 7, 8),
      (0, 3, 6), (1, 4, 7), (2, 5, 8),
      (0, 4, 8), (2, 4, 6)]"

text \<open>
  The test \<open>cells[a] && cells[a] === cells[b] && cells[a] === cells[c]\<close> of one
  combination, with the mark \<open>cells[a]\<close> it lets the caller return. A read beyond the
  end gives \<open>undefined\<close>, which is falsy and equal to no mark.
\<close>

fun comboWinner :: "SmallBoardState \<Rightarrow> nat \<times> nat \<times> nat \<Rightarrow> Player option" where
  "comboWinner cells (a, b, c) =
     (case jsAt cells a of
        Some (Some p) \<Rightarrow>
          if jsAt cells b = Some (Some p) \<and> jsAt cells c = Some (Some p) then Some p else None
      | _ \<Rightarrow> None)"

text \<open>The loop \<open>for (const combo of WINNING_COMBINATIONS)\<close> with its early return.\<close>

fun scanCombos :: "SmallBoardState \<Rightarrow> (nat \<times> nat \<times> nat) list \<Rightarrow> Player option" where
  "scanCombos cells [] = None"
| "scanCombos cells (combo # rest) =
     (case comboWinner cells combo of
        Some p \<Rightarrow> Some p
      | None \<Rightarrow> scanCombos cells rest)"

definition checkSmallBoardStatus :: "SmallBoardState \<Rightarrow> SmallBoardStatus" where
  "checkSmallBoardStatus cells =
     (case scanCombos cells WINNING_COMBINATIONS of
        Some p \<Rightarrow> \<lparr>winner = Some p, isDraw = False\<rparr>
      | None \<Rightarrow>
          if list_all (\<lambda>cell. cell \<noteq> None) cells
          then \<lparr>winner = None, isDraw = True\<rparr>
          else \<lparr>winner = None, isDraw = False\<rparr>)"

text \<open>
  One combination of \<open>checkGlobalWinner\<close>: \<open>statA.winner && statA.winner === statB.winner
  && statA.winner === statC.winner\<close>, evaluated left to right with short circuit, so
  \<open>statB\<close> and \<open>statC\<close> are dereferenced only when the test gets that far.
\<close>

fun metaComboWinner ::
  "SmallBoardStatus list \<Rightarrow> nat \<times> nat \<times> nat \<Rightarrow> error + Player option" where
  "metaComboWinner statuses (a, b, c) =
     (case jsAt statuses a of
        None \<Rightarrow> Inl TypeError
      | Some statA \<Rightarrow>
          (case winner statA of
             None \<Rightarrow> Inr None
           | Some p \<Rightarrow>
               (case jsAt statuses b of
                  None \<Rightarrow> Inl TypeError
                | Some statB \<Rightarrow>
                    if winner statB \<noteq> Some p then Inr None
                    else
                      (case jsAt statuses c of
                         None \<Rightarrow> Inl TypeError
                       | Some statC \<Rightarrow>
                           if winner statC \<noteq> Some p then Inr None else Inr (Some p)))))"

fun scanMetaCombos ::
  "SmallBoardStatus list \<Rightarrow> (nat \<times> nat \<times> nat) list \<Rightarrow> error + Player option" where
  "scanMetaCombos statuses [] = Inr None"
| "scanMetaCombos statuses (combo # rest) =
     (case metaComboWinner statuses combo of
        Inl e \<Rightarrow> Inl e
      | Inr (Some p) \<Rightarrow> Inr (Some p)
      | Inr None \<Rightarrow> scanMetaCombos statuses rest)"

text \<open>The result \<open>{winner, isDraw}\<close> has the shape of a \<open>SmallBoardStatus\<close>.\<close>

definition checkGlobalWinner :: "SmallBoardStatus list \<Rightarrow> error + SmallBoardStatus" where
  "checkGlobalWinner statuses =
     (case scanMetaCombos statuses WINNING_COMBINATIONS of
        Inl e \<Rightarrow> Inl e
      | Inr (Some p) \<Rightarrow> Inr \<lparr>winner = Some p, isDraw = False\<rparr>
      | Inr None \<Rightarrow>
          if list_all decided statuses
          then Inr \<lparr>winner = None, isDraw = True\<rparr>
          else Inr \<lparr>winner = None, isDraw = False\<rparr>)"

definition createInitialBoard :: GameBoardState where
  "createInitialBoard = replicate 9 (replicate 9 None)"

definition createInitialStatuses :: "SmallBoardStatus list" where
  "createInitialStatuses = replicate 9 \<lparr>winner = None, isDraw = False\<rparr>"

text \<open>
  The inner \<open>board[bIdx].forEach((cell, cIdx) => ...)\<close> of \<open>getValidMoves\<close>: every
  \<open>null\<close> cell pushes \<open>{boardIndex: bIdx, cellIndex: cIdx}\<close> onto \<open>moves\<close>.
\<close>

fun pushEmptyCells :: "nat \<Rightarrow> SmallBoardState \<Rightarrow> nat \<Rightarrow> Move list \<Rightarrow> Move list" where
  "pushEmptyCells bIdx [] cIdx moves = moves"
| "pushEmptyCells bIdx (cell # rest) cIdx moves =
     pushEmptyCells bIdx rest (Suc cIdx)
       (if cell = None then moves @ [(bIdx, cIdx)] else moves)"

text \<open>The loop \<open>for (const bIdx of targetBoards)\<close>.\<close>

fun collectMoves :: "GameState \<Rightarrow> nat list \<Rightarrow> Move list \<Rightarrow> error + Move list" where
  "collectMoves gameState [] moves = Inr moves"
| "collectMoves gameState (bIdx # rest) moves =
     (case jsAt (smallBoardStatuses gameState) bIdx of
        None \<Rightarrow> Inl TypeError
      | Some status \<Rightarrow>
          if winner status = None \<and> \<not> isDraw status then
            (case jsAt (board gameState) bIdx of
               None \<Rightarrow> Inl TypeError
             | Some cells \<Rightarrow>
                 collectMoves gameState rest (pushEmptyCells bIdx cells 0 moves))
          else collectMoves gameState rest moves)"

definition targetBoardsOf :: "GameState \<Rightarrow> error + nat list" where
  "targetBoardsOf gameState =
     (case nextBoardIndex gameState of
        Some n \<Rightarrow>
          (case jsAt (smallBoardStatuses gameState) n of
             None \<Rightarrow> Inl TypeError
           | Some status \<Rightarrow>
               if winner status = None \<and> \<not> isDraw status then Inr [n]
               else Inr [0, 1, 2, 3, 4, 5, 6, 7, 8])
      | None \<Rightarrow> Inr [0, 1, 2, 3, 4, 5, 6, 7, 8])"

definition getValidMoves :: "GameState \<Rightarrow> error + Move list" where
  "getValidMoves gameState =
     (if globalWinner gameState \<noteq> None then Inr []
      else
        (case targetBoardsOf gameState of
           Inl e \<Rightarrow> Inl e
         | Inr targetBoards \<Rightarrow> collectMoves gameState targetBoards []))"

section \<open>Move selection (aiLogic.ts)\<close>

text \<open>
  The loop of \<open>canWinBoard\<close> over the cell indices still to try. \<open>board[i] === null\<close>
  fails for \<open>undefined\<close>, so an index beyond the end is skipped and the write
  \<open>tempBoard[i] = player\<close> is always in range.
\<close>

fun canWinFrom :: "SmallBoardState \<Rightarrow> Player \<Rightarrow> nat list \<Rightarrow> nat option" where
  "canWinFrom cells player [] = None"
| "canWinFrom cells player (i # rest) =
     (if jsAt cells i = Some None
         \<and> winner (checkSmallBoardStatus (cells[i := Some player])) = Some player
      then Some i
      else canWinFrom cells player rest)"

definition canWinBoard :: "SmallBoardState \<Rightarrow> Player \<Rightarrow> nat option" where
  "canWinBoard cells player = canWinFrom cells player [0, 1, 2, 3, 4, 5, 6, 7, 8]"

text \<open>Factor: win small board, win global game, strategic board capture.\<close>

definition winFactor :: "GameState \<Rightarrow> nat \<Rightarrow> SmallBoardStatus \<Rightarrow> error + int" where
  "winFactor gameState targetBoardIndex boardStatusResult =
     (if winner boardStatusResult = Some (currentPlayer gameState) then
        (case jsSet (smallBoardStatuses gameState) targetBoardIndex boardStatusResult of
           Inl e \<Rightarrow> Inl e
         | Inr nextStatuses \<Rightarrow>
             (case checkGlobalWinner nextStatuses of
                Inl e \<Rightarrow> Inl e
              | Inr globalResult \<Rightarrow>
                  Inr (100
                       + (if winner globalResult = Some (currentPlayer gameState)
                          then 10000 else 0)
                       + (if targetBoardIndex = 4 then 20
                          else if targetBoardIndex \<in> set [0, 2, 6, 8] then 10 else 0))))
      else Inr 0)"

text \<open>Factor: block the opponent from winning the small board.\<close>

definition blockFactor :: "SmallBoardState \<Rightarrow> Player \<Rightarrow> nat \<Rightarrow> int" where
  "blockFactor targetBoard opponent cellIdx =
     (if canWinBoard targetBoard opponent = Some cellIdx then 80 else 0)"

text \<open>
  Factor: destination board analysis, on \<open>smallBoardStatuses[move.cellIndex]\<close> as it is
  before the move.
\<close>

definition destinationFactor :: "GameState \<Rightarrow> Player \<Rightarrow> nat \<Rightarrow> error + int" where
  "destinationFactor gameState opponent nextBoardIdx =
     (case jsAt (smallBoardStatuses gameState) nextBoardIdx of
        None \<Rightarrow> Inl TypeError
      | Some nextBoardStatus \<Rightarrow>
          if winner nextBoardStatus \<noteq> None \<or> isDraw nextBoardStatus then Inr (- 50)
          else
            (case jsAt (board gameState) nextBoardIdx of
               None \<Rightarrow> Inl TypeError
             | Some destBoard \<Rightarrow>
                 if canWinBoard destBoard opponent \<noteq> None then Inr (- 100) else Inr 0))"

text \<open>Factor: centre and corner preference within the small board.\<close>

definition positionFactor :: "nat \<Rightarrow> int" where
  "positionFactor cellIdx =
     (if cellIdx = 4 then 5 else if cellIdx \<in> set [0, 2, 6, 8] then 3 else 0)"

text \<open>
  \<open>evaluateMove\<close> adds the factors to \<open>score\<close> in this order; an exception in one of
  them ends the evaluation.
\<close>

definition evaluateMove :: "GameState \<Rightarrow> Move \<Rightarrow> error + int" where
  "evaluateMove gameState move =
     (let targetBoardIndex = fst move;
          cellIdx = snd move;
          opponent = opponentOf (currentPlayer gameState)
      in
        case jsAt (board gameState) targetBoardIndex of
          None \<Rightarrow> Inl TypeError
        | Some targetBoard \<Rightarrow>
            (case jsSet targetBoard cellIdx (Some (currentPlayer gameState)) of
               Inl e \<Rightarrow> Inl e
             | Inr currentSmallBoard \<Rightarrow>
                 (case winFactor gameState targetBoardIndex
                         (checkSmallBoardStatus currentSmallBoard) of
                    Inl e \<Rightarrow> Inl e
                  | Inr won \<Rightarrow>
                      (case destinationFactor gameState opponent cellIdx of
                         Inl e \<Rightarrow> Inl e
                       | Inr dest \<Rightarrow>
                           Inr (won + blockFactor targetBoard opponent cellIdx + dest
                                + positionFactor cellIdx)))))"

text \<open>
  \<open>Math.random()\<close> is an injected source: \<open>rnd k\<close> is the value of the \<open>k\<close>-th call
  made by one run of \<open>getAiMove\<close>. The pick \<open>xs[Math.floor(r * xs.length)]\<close> is
  \<open>undefined\<close> (here \<open>None\<close>) when the index misses the array. The product is the exact
  one; the code rounds it to a double before \<open>Math.floor\<close>, which can move a product
  just below an integer onto it.
\<close>

definition randomPick :: "real \<Rightarrow> 'a list \<Rightarrow> 'a option" where
  "randomPick r xs =
     (let i = \<lfloor>r * real (length xs)\<rfloor>
      in if 0 \<le> i \<and> nat i < length xs then Some (xs ! nat i) else None)"

text \<open>
  The two loops of the Intermediate tier: the first move of \<open>validMoves\<close> whose cell is
  the one \<open>canWinBoard\<close> reports for its board and the given player.
\<close>

fun findWinningCell :: "GameBoardState \<Rightarrow> Player \<Rightarrow> Move list \<Rightarrow> error + Move option" where
  "findWinningCell boards player [] = Inr None"
| "findWinningCell boards player (move # rest) =
     (case jsAt boards (fst move) of
        None \<Rightarrow> Inl TypeError
      | Some smallBoard \<Rightarrow>
          if canWinBoard smallBoard player = Some (snd move) then Inr (Some move)
          else findWinningCell boards player rest)"

text \<open>
  The scoring loop of the Advanced tier. \<open>bestScore\<close> starts at \<open>-Infinity\<close>, which is
  \<open>None\<close> here: every score is greater, and none is within 0.1 of it. The \<open>k\<close>-th move
  uses the \<open>k\<close>-th random number. Scores are reals; the model does not round them as
  floating point does.
\<close>

fun advancedLoop ::
  "GameState \<Rightarrow> (nat \<Rightarrow> real) \<Rightarrow> nat \<Rightarrow> Move list \<Rightarrow> real option \<Rightarrow> Move list
     \<Rightarrow> error + Move list" where
  "advancedLoop gameState rnd k [] bestScore bestMoves = Inr bestMoves"
| "advancedLoop gameState rnd k (move # rest) bestScore bestMoves =
     (let randomNoise = rnd k * 5
      in
        case evaluateMove gameState move of
          Inl e \<Rightarrow> Inl e
        | Inr base \<Rightarrow>
            (let score = real_of_int base + randomNoise
             in
               case bestScore of
                 None \<Rightarrow> advancedLoop gameState rnd (Suc k) rest (Some score) [move]
               | Some best \<Rightarrow>
                   if score > best
                   then advancedLoop gameState rnd (Suc k) rest (Some score) [move]
                   else if \<bar>score - best\<bar> < 1 / 10
                   then advancedLoop gameState rnd (Suc k) rest bestScore (bestMoves @ [move])
                   else advancedLoop gameState rnd (Suc k) rest bestScore bestMoves))"

text \<open>\<open>getAiMove\<close>; \<open>Inr None\<close> is the result \<open>null\<close>.\<close>

definition getAiMove :: "(nat \<Rightarrow> real) \<Rightarrow> GameState \<Rightarrow> error + Move option" where
  "getAiMove rnd gameState =
     (case getValidMoves gameState of
        Inl e \<Rightarrow> Inl e
      | Inr validMoves \<Rightarrow>
          if validMoves = [] then Inr None
          else
            (case aiDifficulty gameState of
               Beginner \<Rightarrow> Inr (randomPick (rnd 0) validMoves)
             | Intermediate \<Rightarrow>
                 (case findWinningCell (board gameState) (currentPlayer gameState) validMoves of
                    Inl e \<Rightarrow> Inl e
                  | Inr (Some move) \<Rightarrow> Inr (Some move)
                  | Inr None \<Rightarrow>
                      (case findWinningCell (board gameState)
                              (opponentOf (currentPlayer gameState)) validMoves of
                         Inl e \<Rightarrow> Inl e
                       | Inr (Some move) \<Rightarrow> Inr (Some move)
                       | Inr None \<Rightarrow> Inr (randomPick (rnd 0) validMoves)))
             | Advanced \<Rightarrow>
                 (case advancedLoop gameState rnd 0 validMoves None [] of
                    Inl e \<Rightarrow> Inl e
                  | Inr bestMoves \<Rightarrow>
                      if bestMoves \<noteq> []
                      then Inr (randomPick (rnd (length validMoves)) bestMoves)
                      else Inr (jsAt validMoves 0))))"

section \<open>The match coordinator (Game.tsx)\<close>

text \<open>\<open>onlineRole === 'HOST' ? Player.X : Player.O\<close>; the role \<open>null\<close> is \<open>None\<close>.\<close>

definition myPlayerOf :: "OnlineRole option \<Rightarrow> Player" where
  "myPlayerOf onlineRole = (if onlineRole = Some HOST then Player_X else Player_O)"

text \<open>
  The state updater that \<open>handleCellClick\<close> passes to \<open>setGameState\<close>. Every
  \<open>return prevState\<close> of the source is a branch that returns \<open>Inr prevState\<close>: the move is
  rejected and React keeps the state it has. \<open>onlineRole\<close> and \<open>lastMove\<close> are the values
  the callback closes over. \<open>board.map\<close> replaces exactly cell \<open>cellIndex\<close> of board
  \<open>boardIndex\<close>, and the write into the copy of \<open>smallBoardStatuses\<close> follows a
  successful read of the same index, so both are list updates in range.
\<close>

definition handleCellClick ::
  "OnlineRole option \<Rightarrow> Move option \<Rightarrow> nat \<Rightarrow> nat \<Rightarrow> bool \<Rightarrow> GameState \<Rightarrow> error + GameState" where
  "handleCellClick onlineRole lastMove boardIndex cellIndex isRemote prevState =
     (if gameMode prevState = PvOnline \<and> \<not> isRemote
         \<and> currentPlayer prevState \<noteq> myPlayerOf onlineRole
      then Inr prevState
      else if globalWinner prevState \<noteq> None then Inr prevState
      else
        (case jsAt (board prevState) boardIndex of
           None \<Rightarrow> Inl TypeError
         | Some targetBoard \<Rightarrow>
             if jsAt targetBoard cellIndex \<noteq> Some None then Inr prevState
             else if nextBoardIndex prevState \<noteq> None
                     \<and> nextBoardIndex prevState \<noteq> Some boardIndex
             then Inr prevState
             else
               (case jsAt (smallBoardStatuses prevState) boardIndex of
                  None \<Rightarrow> Inl TypeError
                | Some targetStatus \<Rightarrow>
                    if winner targetStatus \<noteq> None \<or> isDraw targetStatus then Inr prevState
                    else
                      (let newBoard =
                             (board prevState)
                               [boardIndex := targetBoard[cellIndex := Some (currentPlayer prevState)]];
                           newSmallBoardStatus = checkSmallBoardStatus (newBoard ! boardIndex);
                           newSmallBoardStatuses =
                             (smallBoardStatuses prevState)[boardIndex := newSmallBoardStatus]
                       in
                         case checkGlobalWinner newSmallBoardStatuses of
                           Inl e \<Rightarrow> Inl e
                         | Inr globalResult \<Rightarrow>
                             (case jsAt newSmallBoardStatuses cellIndex of
                                None \<Rightarrow> Inl TypeError
                              | Some nextTargetStatus \<Rightarrow>
                                  Inr (prevState
                                    \<lparr>board := newBoard,
                                     smallBoardStatuses := newSmallBoardStatuses,
                                     currentPlayer :=
                                       (if currentPlayer prevState = Player_X
                                        then Player_O else Player_X),
                                     nextBoardIndex :=
                                       (if winner nextTargetStatus \<noteq> None
                                           \<or> isDraw nextTargetStatus
                                        then None else Some cellIndex),
                                     globalWinner := winner globalResult,
                                     isGlobalDraw := isDraw globalResult,
                                     history := history prevState @
                                       [\<lparr>hist_board = board prevState,
                                         hist_smallBoardStatuses = smallBoardStatuses prevState,
                                         hist_currentPlayer = currentPlayer prevState,
                                         hist_nextBoardIndex = nextBoardIndex prevState,
                                         hist_lastMove = lastMove\<rparr>],
                                     moveCount := moveCount prevState + 1\<rparr>))))))"

text \<open>The state that \<open>resetGameState(mode, difficulty)\<close> sets, also the component's first state.\<close>

definition resetGameState :: "GameMode \<Rightarrow> AiDifficulty \<Rightarrow> GameState" where
  "resetGameState mode difficulty =
     \<lparr>board = createInitialBoard,
      smallBoardStatuses = createInitialStatuses,
      currentPlayer = Player_X,
      nextBoardIndex = None,
      globalWinner = None,
      isGlobalDraw = False,
      history = [],
      moveCount = 0,
      gameMode = mode,
      aiDifficulty = difficulty\<rparr>"

text \<open>
  The states of the \<open>Game\<close> component that decide whether a move is taken. Notifications,
  the peer id and the modal are presentation and are left out; so is the message that a
  local online move sends to the peer.
\<close>

record Game =
  gameState :: GameState
  lastMove :: "Move option"
  onlineState :: OnlineState
  onlineRole :: "OnlineRole option"

text \<open>
  A local call \<open>handleCellClick(boardIndex, cellIndex, false)\<close> on the component, made
  with the callback of the current render, which closes over the current \<open>onlineRole\<close> and
  \<open>lastMove\<close>: \<open>setGameState\<close> with the updater above, and \<open>setLastMove\<close> on the path that
  applies the move (the only path whose result differs from the previous state, as
  \<open>moveCount\<close> grows). A remote call goes through the callback that was current when the
  session was started, with the \<open>lastMove\<close> and \<open>onlineRole\<close> of that render; it is an
  instance of \<open>handleCellClick\<close> with those values and is not a case of this definition.
\<close>

definition callHandleCellClick :: "Game \<Rightarrow> nat \<Rightarrow> nat \<Rightarrow> error + Game" where
  "callHandleCellClick g boardIndex cellIndex =
     (case handleCellClick (onlineRole g) (lastMove g) boardIndex cellIndex False (gameState g) of
        Inl e \<Rightarrow> Inl e
      | Inr s \<Rightarrow>
          if s = gameState g then Inr g
          else Inr (g\<lparr>gameState := s, lastMove := Some (boardIndex, cellIndex)\<rparr>))"

text \<open>\<open>isInteractionAllowed\<close>, computed when the boards are rendered.\<close>

definition isInteractionAllowed :: "Game \<Rightarrow> bool" where
  "isInteractionAllowed g =
     (\<not> (gameMode (gameState g) = PvCPU \<and> currentPlayer (gameState g) = Player_O)
      \<and> \<not> (gameMode (gameState g) = PvOnline
            \<and> ((onlineRole g = Some HOST \<and> currentPlayer (gameState g) = Player_O)
               \<or> (onlineRole g = Some GUEST \<and> currentPlayer (gameState g) = Player_X)
               \<or> onlineState g \<noteq> CONNECTED)))"

text \<open>
  The \<open>onCellClick\<close> handler every board receives, which is how a move of the local player
  starts: \<open>isInteractionAllowed ? (b, c) => handleCellClick(b, c, false) : () => {}\<close>.
\<close>

definition onCellClick :: "Game \<Rightarrow> nat \<Rightarrow> nat \<Rightarrow> error + Game" where
  "onCellClick g boardIndex cellIndex =
     (if isInteractionAllowed g then callHandleCellClick g boardIndex cellIndex
      else Inr g)"

text \<open>\<open>handleOnlineDisconnect\<close>, the callback the peer service calls when the channel closes.\<close>

definition handleOnlineDisconnect :: "Game \<Rightarrow> Game" where
  "handleOnlineDisconnect g = g\<lparr>onlineState := DISCONNECTED\<rparr>"

text \<open>A run of local click attempts \<open>(boardIndex, cellIndex)\<close>, one after the other.\<close>

fun localClicks :: "Game \<Rightarrow> Move list \<Rightarrow> error + Game" where
  "localClicks g [] = Inr g"
| "localClicks g (m # ms) =
     (case onCellClick g (fst m) (snd m) of
        Inl e \<Rightarrow> Inl e
      | Inr g' \<Rightarrow> localClicks g' ms)"

section \<open>Notions the properties are stated with\<close>

text \<open>
  The shape every state of a match has: nine boards of nine cells, nine statuses, and a
  forced board, when there is one, among the nine.
\<close>

definition wf_state :: "GameState \<Rightarrow> bool" where
  "wf_state s =
     (length (board s) = 9 \<and> list_all (\<lambda>cells. length cells = 9) (board s)
      \<and> length (smallBoardStatuses s) = 9
      \<and> (case nextBoardIndex s of None \<Rightarrow> True | Some n \<Rightarrow> n < 9))"

text \<open>Every index of every combination lies below \<open>n\<close>.\<close>

definition combosWithin :: "nat \<Rightarrow> (nat \<times> nat \<times> nat) list \<Rightarrow> bool" where
  "combosWithin n combos = list_all (\<lambda>(a, b, c). a < n \<and> b < n \<and> c < n) combos"

text \<open>All three cells of a combination hold the same mark.\<close>

fun uniformCombo :: "SmallBoardState \<Rightarrow> nat \<times> nat \<times> nat \<Rightarrow> bool" where
  "uniformCombo cells (a, b, c) =
     (cells ! a \<noteq> None \<and> cells ! a = cells ! b \<and> cells ! a = cells ! c)"

text \<open>All three boards of a combination have the same winner.\<close>

fun uniformMetaCombo :: "SmallBoardStatus list \<Rightarrow> nat \<times> nat \<times> nat \<Rightarrow> bool" where
  "uniformMetaCombo statuses (a, b, c) =
     (winner (statuses ! a) \<noteq> None
      \<and> winner (statuses ! a) = winner (statuses ! b)
      \<and> winner (statuses ! a) = winner (statuses ! c))"

text \<open>The empty cells of board \<open>b\<close>, by ascending cell index.\<close>

definition emptyCellsOf :: "GameState \<Rightarrow> nat \<Rightarrow> Move list" where
  "emptyCellsOf s b = map (\<lambda>c. (b, c)) (filter (\<lambda>c. board s ! b ! c = None) [0..<9])"

text \<open>The boards whose status is neither won nor drawn, by ascending index.\<close>

definition undecidedBoards :: "GameState \<Rightarrow> nat list" where
  "undecidedBoards s = filter (\<lambda>b. \<not> decided (smallBoardStatuses s ! b)) [0..<9]"

text \<open>The order of moves by \<open>(boardIndex, cellIndex)\<close>.\<close>

fun moveLess :: "Move \<Rightarrow> Move \<Rightarrow> bool" where
  "moveLess (b, c) (b', c') = (b < b' \<or> (b = b' \<and> c < c'))"

text \<open>
  The statuses once the mover's mark is in cell \<open>c\<close> of board \<open>b\<close>: the status of board
  \<open>b\<close> computed anew from its cells with the mark placed, the others as they were.
\<close>

definition statusesAfterMove :: "GameState \<Rightarrow> nat \<Rightarrow> nat \<Rightarrow> SmallBoardStatus list" where
  "statusesAfterMove s b c =
     (smallBoardStatuses s)
       [b := checkSmallBoardStatus ((board s ! b)[c := Some (currentPlayer s)])]"

text \<open>The draw flag is set only when every sub-board status is decided.\<close>

definition drawConsistent :: "GameState \<Rightarrow> bool" where
  "drawConsistent s = (isGlobalDraw s \<longrightarrow> list_all decided (smallBoardStatuses s))"

text \<open>
  The states a match goes through: a fresh state, then any calls of \<open>handleCellClick\<close>,
  local or remote, that return.
\<close>

inductive reachable :: "GameState \<Rightarrow> bool" where
  reachable_reset: "reachable (resetGameState mode difficulty)"
| reachable_click:
    "reachable s \<Longrightarrow>
     handleCellClick role lm boardIndex cellIndex isRemote s = Inr s' \<Longrightarrow>
     reachable s'"

text \<open>
  Placing the mark of \<open>player\<close> in cell \<open>c\<close> of board \<open>b\<close> makes \<open>player\<close> the winner of
  that board: the move wins its sub-board for the mover, or is the cell the opponent could
  have used to win it.
\<close>

fun winsSubBoard :: "GameState \<Rightarrow> Player \<Rightarrow> Move \<Rightarrow> bool" where
  "winsSubBoard s player (b, c) =
     (winner (checkSmallBoardStatus ((board s ! b)[c := Some player])) = Some player)"

text \<open>
  With the mover's mark in cell \<open>c\<close> of board \<open>b\<close> and the status of that board
  recomputed, \<open>checkGlobalWinner\<close> names the mover: the move completes a meta-board win.
\<close>

fun completesMetaWin :: "GameState \<Rightarrow> Move \<Rightarrow> bool" where
  "completesMetaWin s (b, c) =
     (case checkGlobalWinner ((smallBoardStatuses s)
             [b := checkSmallBoardStatus ((board s ! b)[c := Some (currentPlayer s)])]) of
        Inl e \<Rightarrow> False
      | Inr globalResult \<Rightarrow> winner globalResult = Some (currentPlayer s))"

text \<open>
  The moves within 0.1 of the greatest score, from a list of moves paired with their
  scores, in the order of the list.
\<close>

definition nearMaxMoves :: "(Move \<times> real) list \<Rightarrow> Move list" where
  "nearMaxMoves scored =
     map fst (filter (\<lambda>(m, x). Max (set (map snd scored)) - x < 1 / 10) scored)"

text \<open>
  The moves paired with the scores the Advanced tier compares: the value of
  \<open>evaluateMove\<close> plus the noise of the move's turn in the loop. A move whose evaluation
  throws has no score.
\<close>

fun noisyScores :: "GameState \<Rightarrow> (nat \<Rightarrow> real) \<Rightarrow> nat \<Rightarrow> Move list \<Rightarrow> (Move \<times> real) list" where
  "noisyScores s rnd k [] = []"
| "noisyScores s rnd k (move # rest) =
     (case evaluateMove s move of
        Inl e \<Rightarrow> noisyScores s rnd (Suc k) rest
      | Inr base \<Rightarrow> (move, real_of_int base + rnd k * 5) # noisyScores s rnd (Suc k) rest)"

section \<open>Example states\<close>

text \<open>
  The state after the first player opens a game against the Advanced computer player in
  the centre cell of the centre board: \<open>handleCellClick(4, 4)\<close> on
  \<open>resetGameState('PvCPU', 'Advanced')\<close>.
\<close>

definition stateAfterOpening :: GameState where
  "stateAfterOpening =
     \<lparr>board = [replicate 9 None, replicate 9 None, replicate 9 None, replicate 9 None,
               [None, None, None, None, Some Player_X, None, None, None, None],
               replicate 9 None, replicate 9 None, replicate 9 None, replicate 9 None],
      smallBoardStatuses = replicate 9 \<lparr>winner = None, isDraw = False\<rparr>,
      currentPlayer = Player_O,
      nextBoardIndex = Some 4,
      globalWinner = None,
      isGlobalDraw = False,
      history = [\<lparr>hist_board = createInitialBoard,
                  hist_smallBoardStatuses = createInitialStatuses,
                  hist_currentPlayer = Player_X,
                  hist_nextBoardIndex = None,
                  hist_lastMove = None\<rparr>],
      moveCount = 1,
      gameMode = PvCPU,
      aiDifficulty = Advanced\<rparr>"

text \<open>
  A two-player position with \<open>X\<close> to move in board 0, where cell 0 completes the top row:
  the move wins board 0 and its cell index sends the opponent to that same board.
\<close>

definition selfSendState :: GameState where
  "selfSendState =
     \<lparr>board = [[None, Some Player_X, Some Player_X,
                Some Player_O, Some Player_O, None,
                None, None, None],
               replicate 9 None, replicate 9 None, replicate 9 None, replicate 9 None,
               replicate 9 None, replicate 9 None, replicate 9 None, replicate 9 None],
      smallBoardStatuses = replicate 9 \<lparr>winner = None, isDraw = False\<rparr>,
      currentPlayer = Player_X,
      nextBoardIndex = Some 0,
      globalWinner = None,
      isGlobalDraw = False,
      history = [],
      moveCount = 4,
      gameMode = PvP,
      aiDifficulty = Beginner\<rparr>"

text \<open>The host of an online match that has just started, connected and to move.\<close>

definition hostConnected :: Game where
  "hostConnected =
     \<lparr>gameState = resetGameState PvOnline Beginner,
      lastMove = None,
      onlineState = CONNECTED,
      onlineRole = Some HOST\<rparr>"

text \<open>
  Two positions of a game against the Intermediate computer player, which has the mark
  \<open>O\<close> and is to move in the centre board. In the first it can complete the top row of
  that board; in the second it cannot win the board, and the opponent threatens the
  middle row.
\<close>

definition intermediateWinState :: GameState where
  "intermediateWinState =
     \<lparr>board = [replicate 9 None, replicate 9 None, replicate 9 None, replicate 9 None,
               [Some Player_O, Some Player_O, None,
                Some Player_X, Some Player_X, None,
                None, None, None],
               replicate 9 None, replicate 9 None, replicate 9 None, replicate 9 None],
      smallBoardStatuses = replicate 9 \<lparr>winner = None, isDraw = False\<rparr>,
      currentPlayer = Player_O,
      nextBoardIndex = Some 4,
      globalWinner = None,
      isGlobalDraw = False,
      history = [],
      moveCount = 4,
      gameMode = PvCPU,
      aiDifficulty = Intermediate\<rparr>"

definition intermediateBlockState :: GameState where
  "intermediateBlockState =
     \<lparr>board = [replicate 9 None, replicate 9 None, replicate 9 None, replicate 9 None,
               [Some Player_O, None, None,
                Some Player_X, Some Player_X, None,
                None, None, None],
               replicate 9 None, replicate 9 None, replicate 9 None, replicate 9 None],
      smallBoardStatuses = replicate 9 \<lparr>winner = None, isDraw = False\<rparr>,
      currentPlayer = Player_O,
      nextBoardIndex = Some 4,
      globalWinner = None,
      isGlobalDraw = False,
      history = [],
      moveCount = 3,
      gameMode = PvCPU,
      aiDifficulty = Intermediate\<rparr>"

text \<open>
  Two positions with \<open>X\<close> to move in the centre board, having won boards 0 and 8 and
  holding two corners of the centre board, so that its centre cell wins the board and the
  game. In the second the opponent holds the other two corners and would win the board
  with the same cell.
\<close>

definition metaWinState :: GameState where
  "metaWinState =
     \<lparr>board = [[Some Player_X, Some Player_X, Some Player_X,
                Some Player_O, Some Player_O, None, None, None, None],
               replicate 9 None, replicate 9 None, replicate 9 None,
               [Some Player_X, None, None, None, None, None, None, None, Some Player_X],
               replicate 9 None, replicate 9 None, replicate 9 None,
               [Some Player_X, Some Player_X, Some Player_X,
                Some Player_O, Some Player_O, None, None, None, None]],
      smallBoardStatuses =
        [\<lparr>winner = Some Player_X, isDraw = False\<rparr>, \<lparr>winner = None, isDraw = False\<rparr>,
         \<lparr>winner = None, isDraw = False\<rparr>, \<lparr>winner = None, isDraw = False\<rparr>,
         \<lparr>winner = None, isDraw = False\<rparr>, \<lparr>winner = None, isDraw = False\<rparr>,
         \<lparr>winner = None, isDraw = False\<rparr>, \<lparr>winner = None, isDraw = False\<rparr>,
         \<lparr>winner = Some Player_X, isDraw = False\<rparr>],
      currentPlayer = Player_X,
      nextBoardIndex = Some 4,
      globalWinner = None,
      isGlobalDraw = False,
      history = [],
      moveCount = 12,
      gameMode = PvP,
      aiDifficulty = Advanced\<rparr>"

definition metaWinThreatState :: GameState where
  "metaWinThreatState =
     metaWinState
       \<lparr>board := (board metaWinState)
          [4 := [Some Player_X, None, Some Player_O,
                 None, None, None,
                 Some Player_O, None, Some Player_X]],
        moveCount := 14\<rparr>"

text \<open>
  A run of \<open>Math.random()\<close> that gives 1/64 at its third call, \<open>r\<close> at its ninth and 0
  at the others. The noise \<open>5 * 1/64\<close> and the scores it is added to are exact in binary
  floating point.
\<close>

definition noiseExample :: "real \<Rightarrow> nat \<Rightarrow> real" where
  "noiseExample r k = (if k = 2 then 1 / 64 else if k = 8 then r else 0)"

section \<open>Sub-board and meta-board status\<close>

lemma combosWithin_WINNING: "combosWithin 9 WINNING_COMBINATIONS"
  by (simp add: combosWithin_def WINNING_COMBINATIONS_def)

lemma find_None_iff_set: "(find P xs \<noteq> None) = (\<exists>x\<in>set xs. P x)"
  by (induction xs) auto

lemma comboWinner_uniform:
  assumes "a < length cells" "b < length cells" "c < length cells"
  shows "comboWinner cells (a, b, c) = (if uniformCombo cells (a, b, c) then cells ! a else None)"
  using assms by (auto simp: jsAt_def split: option.splits)

lemma scanCombos_find:
  "combosWithin (length cells) combos \<Longrightarrow>
   scanCombos cells combos =
     (case find (uniformCombo cells) combos of None \<Rightarrow> None | Some (a, b, c) \<Rightarrow> cells ! a)"
proof (induction combos)
  case Nil
  then show ?case by simp
next
  case (Cons combo rest)
  obtain a b c where combo: "combo = (a, b, c)" by (cases combo) auto
  from Cons.prems have inr: "a < length cells" "b < length cells" "c < length cells"
    and rest: "combosWithin (length cells) rest"
    by (simp_all add: combosWithin_def combo)
  show ?case
  proof (cases "uniformCombo cells (a, b, c)")
    case True
    then obtain p where "cells ! a = Some p" by auto
    with True inr show ?thesis
      unfolding combo by (simp add: comboWinner_uniform del: comboWinner.simps uniformCombo.simps)
  next
    case False
    with inr Cons.IH [OF rest] show ?thesis
      unfolding combo by (simp add: comboWinner_uniform del: comboWinner.simps uniformCombo.simps)
  qed
qed

lemma winner_checkSmallBoardStatus:
  "winner (checkSmallBoardStatus cells) = scanCombos cells WINNING_COMBINATIONS"
  by (simp add: checkSmallBoardStatus_def split: option.splits)

text \<open>
  C6. For every board of nine cells, \<open>checkSmallBoardStatus\<close> reports a winner exactly
  when one of the eight combinations holds three equal marks, the winner is the mark of
  the first such combination in the listed order, and it reports a draw exactly when all
  nine cells are filled and there is no winner.
\<close>

theorem checkSmallBoardStatus_spec:
  assumes "length cells = 9"
  shows "(winner (checkSmallBoardStatus cells) \<noteq> None
            \<longleftrightarrow> (\<exists>combo \<in> set WINNING_COMBINATIONS. uniformCombo cells combo))
       \<and> winner (checkSmallBoardStatus cells) =
           (case find (uniformCombo cells) WINNING_COMBINATIONS of
              None \<Rightarrow> None
            | Some (a, b, c) \<Rightarrow> cells ! a)
       \<and> (isDraw (checkSmallBoardStatus cells)
            \<longleftrightarrow> (\<forall>i<9. cells ! i \<noteq> None) \<and> winner (checkSmallBoardStatus cells) = None)"
proof -
  let ?f = "find (uniformCombo cells) WINNING_COMBINATIONS"
  have scan: "scanCombos cells WINNING_COMBINATIONS =
      (case ?f of None \<Rightarrow> None | Some (a, b, c) \<Rightarrow> cells ! a)"
    using scanCombos_find [of cells WINNING_COMBINATIONS] combosWithin_WINNING assms by simp
  have w: "winner (checkSmallBoardStatus cells) = scanCombos cells WINNING_COMBINATIONS"
    by (rule winner_checkSmallBoardStatus)
  have full: "list_all (\<lambda>cell. cell \<noteq> None) cells \<longleftrightarrow> (\<forall>i<9. cells ! i \<noteq> None)"
    using assms by (simp add: list_all_length)
  have d: "isDraw (checkSmallBoardStatus cells)
      \<longleftrightarrow> (\<forall>i<9. cells ! i \<noteq> None) \<and> scanCombos cells WINNING_COMBINATIONS = None"
    using full by (simp add: checkSmallBoardStatus_def split: option.splits)
  have some: "scanCombos cells WINNING_COMBINATIONS \<noteq> None \<longleftrightarrow> ?f \<noteq> None"
  proof (cases ?f)
    case None
    then show ?thesis using scan by simp
  next
    case (Some combo)
    obtain a b c where combo: "combo = (a, b, c)" by (cases combo) auto
    from Some have "uniformCombo cells combo" by (auto simp: find_Some_iff)
    then show ?thesis using scan Some combo by auto
  qed
  show ?thesis
    using w d some scan find_None_iff_set [of "uniformCombo cells" WINNING_COMBINATIONS]
    by simp
qed

theorem checkSmallBoardStatus_spec_witness:
  "length [Some Player_O, Some Player_X, None,
           None, Some Player_X, Some Player_O,
           None, Some Player_X, None] = 9
   \<and> winner (checkSmallBoardStatus
        [Some Player_O, Some Player_X, None,
         None, Some Player_X, Some Player_O,
         None, Some Player_X, None]) = Some Player_X
   \<and> \<not> isDraw (checkSmallBoardStatus
        [Some Player_O, Some Player_X, None,
         None, Some Player_X, Some Player_O,
         None, Some Player_X, None])"
  using checkSmallBoardStatus_spec
    [of "[Some Player_O, Some Player_X, None,
          None, Some Player_X, Some Player_O,
          None, Some Player_X, None]"]
  by (simp add: WINNING_COMBINATIONS_def)

lemma metaComboWinner_uniform:
  assumes "a < length statuses" "b < length statuses" "c < length statuses"
  shows "metaComboWinner statuses (a, b, c) =
     Inr (if uniformMetaCombo statuses (a, b, c) then winner (statuses ! a) else None)"
  using assms by (auto simp: jsAt_def split: option.splits)

lemma scanMetaCombos_find:
  "combosWithin (length statuses) combos \<Longrightarrow>
   scanMetaCombos statuses combos =
     Inr (case find (uniformMetaCombo statuses) combos of
            None \<Rightarrow> None
          | Some (a, b, c) \<Rightarrow> winner (statuses ! a))"
proof (induction combos)
  case Nil
  then show ?case by simp
next
  case (Cons combo rest)
  obtain a b c where combo: "combo = (a, b, c)" by (cases combo) auto
  from Cons.prems have inr: "a < length statuses" "b < length statuses" "c < length statuses"
    and rest: "combosWithin (length statuses) rest"
    by (simp_all add: combosWithin_def combo)
  show ?case
  proof (cases "uniformMetaCombo statuses (a, b, c)")
    case True
    then obtain p where "winner (statuses ! a) = Some p" by auto
    with True inr show ?thesis
      unfolding combo
      by (simp add: metaComboWinner_uniform del: metaComboWinner.simps uniformMetaCombo.simps)
  next
    case False
    with inr Cons.IH [OF rest] show ?thesis
      unfolding combo
      by (simp add: metaComboWinner_uniform del: metaComboWinner.simps uniformMetaCombo.simps)
  qed
qed

text \<open>The result of \<open>checkGlobalWinner\<close> on nine statuses, in closed form.\<close>

lemma checkGlobalWinner_nine:
  assumes "length statuses = 9"
  shows "checkGlobalWinner statuses =
     Inr \<lparr>winner = (case find (uniformMetaCombo statuses) WINNING_COMBINATIONS of
                      None \<Rightarrow> None
                    | Some (a, b, c) \<Rightarrow> winner (statuses ! a)),
          isDraw = ((case find (uniformMetaCombo statuses) WINNING_COMBINATIONS of
                       None \<Rightarrow> None
                     | Some (a, b, c) \<Rightarrow> winner (statuses ! a)) = None
                    \<and> list_all decided statuses)\<rparr>"
proof -
  have "scanMetaCombos statuses WINNING_COMBINATIONS =
      Inr (case find (uniformMetaCombo statuses) WINNING_COMBINATIONS of
             None \<Rightarrow> None
           | Some (a, b, c) \<Rightarrow> winner (statuses ! a))"
    using scanMetaCombos_find [of statuses WINNING_COMBINATIONS] combosWithin_WINNING assms
    by simp
  then show ?thesis
    unfolding checkGlobalWinner_def by (simp split: option.splits)
qed

text \<open>
  C7. For every array of nine statuses, \<open>checkGlobalWinner\<close> returns (it does not throw),
  its winner is set exactly when the three boards of some combination have the same
  winner (a board without a winner matches nothing), the winner is that of the first such
  combination, and it reports a draw exactly when each of the nine statuses is decided
  and there is no winner.
\<close>

theorem checkGlobalWinner_spec:
  assumes "length statuses = 9"
  shows "\<exists>r. checkGlobalWinner statuses = Inr r
       \<and> (winner r \<noteq> None
            \<longleftrightarrow> (\<exists>combo \<in> set WINNING_COMBINATIONS. uniformMetaCombo statuses combo))
       \<and> winner r =
           (case find (uniformMetaCombo statuses) WINNING_COMBINATIONS of
              None \<Rightarrow> None
            | Some (a, b, c) \<Rightarrow> winner (statuses ! a))
       \<and> (isDraw r \<longleftrightarrow> (\<forall>i<9. decided (statuses ! i)) \<and> winner r = None)"
proof -
  let ?f = "find (uniformMetaCombo statuses) WINNING_COMBINATIONS"
  let ?w = "case ?f of None \<Rightarrow> None | Some (a, b, c) \<Rightarrow> winner (statuses ! a)"
  have all: "list_all decided statuses \<longleftrightarrow> (\<forall>i<9. decided (statuses ! i))"
    using assms by (simp add: list_all_length)
  define r where "r = \<lparr>winner = ?w, isDraw = (?w = None \<and> list_all decided statuses)\<rparr>"
  have res: "checkGlobalWinner statuses = Inr r"
    unfolding r_def using assms by (rule checkGlobalWinner_nine)
  have some: "?w \<noteq> None \<longleftrightarrow> ?f \<noteq> None"
  proof (cases ?f)
    case None
    then show ?thesis by simp
  next
    case (Some combo)
    obtain a b c where combo: "combo = (a, b, c)" by (cases combo) auto
    from Some have "uniformMetaCombo statuses combo" by (auto simp: find_Some_iff)
    then show ?thesis using Some combo by auto
  qed
  have w: "winner r = ?w" and d: "isDraw r \<longleftrightarrow> ?w = None \<and> list_all decided statuses"
    by (simp_all add: r_def)
  have "(winner r \<noteq> None) = (\<exists>combo \<in> set WINNING_COMBINATIONS. uniformMetaCombo statuses combo)"
    using w some find_None_iff_set [of "uniformMetaCombo statuses" WINNING_COMBINATIONS]
    by simp
  moreover have "isDraw r \<longleftrightarrow> (\<forall>i<9. decided (statuses ! i)) \<and> winner r = None"
    using w d all by auto
  ultimately show ?thesis using res w by blast
qed

theorem checkGlobalWinner_spec_witness:
  "length [\<lparr>winner = Some Player_X, isDraw = False\<rparr>, \<lparr>winner = None, isDraw = True\<rparr>,
           \<lparr>winner = None, isDraw = False\<rparr>, \<lparr>winner = None, isDraw = False\<rparr>,
           \<lparr>winner = Some Player_X, isDraw = False\<rparr>, \<lparr>winner = Some Player_O, isDraw = False\<rparr>,
           \<lparr>winner = None, isDraw = False\<rparr>, \<lparr>winner = None, isDraw = False\<rparr>,
           \<lparr>winner = Some Player_X, isDraw = False\<rparr>] = 9
   \<and> (\<exists>r. checkGlobalWinner
          [\<lparr>winner = Some Player_X, isDraw = False\<rparr>, \<lparr>winner = None, isDraw = True\<rparr>,
           \<lparr>winner = None, isDraw = False\<rparr>, \<lparr>winner = None, isDraw = False\<rparr>,
           \<lparr>winner = Some Player_X, isDraw = False\<rparr>, \<lparr>winner = Some Player_O, isDraw = False\<rparr>,
           \<lparr>winner = None, isDraw = False\<rparr>, \<lparr>winner = None, isDraw = False\<rparr>,
           \<lparr>winner = Some Player_X, isDraw = False\<rparr>] = Inr r
        \<and> winner r = Some Player_X \<and> \<not> isDraw r)"
  using checkGlobalWinner_spec
    [of "[\<lparr>winner = Some Player_X, isDraw = False\<rparr>, \<lparr>winner = None, isDraw = True\<rparr>,
          \<lparr>winner = None, isDraw = False\<rparr>, \<lparr>winner = None, isDraw = False\<rparr>,
          \<lparr>winner = Some Player_X, isDraw = False\<rparr>, \<lparr>winner = Some Player_O, isDraw = False\<rparr>,
          \<lparr>winner = None, isDraw = False\<rparr>, \<lparr>winner = None, isDraw = False\<rparr>,
          \<lparr>winner = Some Player_X, isDraw = False\<rparr>]"]
  by (auto simp: WINNING_COMBINATIONS_def)

section \<open>Legal moves\<close>

lemma pushEmptyCells_enumerate:
  "pushEmptyCells b cells k moves =
     moves @ map (\<lambda>(c, cell). (b, c)) (filter (\<lambda>(c, cell). cell = None) (enumerate k cells))"
  by (induction cells arbitrary: k moves) simp_all

lemma enumerate_nth: "enumerate 0 xs = map (\<lambda>i. (i, xs ! i)) [0..<length xs]"
proof -
  have "enumerate 0 (map (nth xs) [0..<length xs]) = map (\<lambda>i. (i, xs ! i)) [0..<length xs]"
    by (rule enumerate_map_upt)
  then show ?thesis by (simp add: map_nth)
qed

lemma pushEmptyCells_nine:
  assumes "b < length (board s)" "length (board s ! b) = 9"
  shows "pushEmptyCells b (board s ! b) 0 moves = moves @ emptyCellsOf s b"
proof -
  have "map (\<lambda>(c, cell). (b, c))
          (filter (\<lambda>(c, cell). cell = None) (enumerate 0 (board s ! b)))
        = map (\<lambda>c. (b, c)) (filter (\<lambda>c. board s ! b ! c = None) [0..<9])"
    unfolding enumerate_nth assms(2) by (simp add: filter_map comp_def)
  then show ?thesis
    by (simp add: pushEmptyCells_enumerate emptyCellsOf_def)
qed

lemma collectMoves_wf:
  assumes "wf_state s" "\<forall>b\<in>set targetBoards. b < 9"
  shows "collectMoves s targetBoards moves =
     Inr (moves @ concat (map (emptyCellsOf s)
            (filter (\<lambda>b. \<not> decided (smallBoardStatuses s ! b)) targetBoards)))"
  using assms(2)
proof (induction targetBoards arbitrary: moves)
  case Nil
  then show ?case by simp
next
  case (Cons b rest)
  from Cons.prems have b: "b < 9" and rest: "\<forall>b\<in>set rest. b < 9" by simp_all
  from assms(1) b have len: "b < length (board s)" "length (board s ! b) = 9"
    "b < length (smallBoardStatuses s)"
    by (simp_all add: wf_state_def list_all_length)
  show ?case
    using len Cons.IH [OF rest]
    by (simp add: jsAt_def decided_def pushEmptyCells_nine)
qed

lemma sorted_emptyCellsOf: "sorted_wrt moveLess (emptyCellsOf s b)"
proof -
  have "sorted_wrt (<) (filter (\<lambda>c. board s ! b ! c = None) [0..<9])"
    by (rule sorted_wrt_filter) simp
  then show ?thesis
    unfolding emptyCellsOf_def by (simp add: sorted_wrt_map)
qed

lemma fst_emptyCellsOf: "m \<in> set (emptyCellsOf s b) \<Longrightarrow> fst m = b"
  by (auto simp: emptyCellsOf_def)

lemma sorted_concat_emptyCells:
  "sorted_wrt (<) bs \<Longrightarrow> sorted_wrt moveLess (concat (map (emptyCellsOf s) bs))"
proof (induction bs)
  case Nil
  then show ?case by simp
next
  case (Cons b rest)
  then have IH: "sorted_wrt moveLess (concat (map (emptyCellsOf s) rest))"
    and lt: "\<forall>b'\<in>set rest. b < b'" by simp_all
  have "moveLess m m'" if "m \<in> set (emptyCellsOf s b)"
    and "m' \<in> set (concat (map (emptyCellsOf s) rest))" for m m'
  proof -
    from that(2) obtain b' where "b' \<in> set rest" "m' \<in> set (emptyCellsOf s b')" by auto
    with lt that(1) have "fst m < fst m'" by (auto dest!: fst_emptyCellsOf)
    then show ?thesis by (cases m; cases m') simp
  qed
  with IH sorted_emptyCellsOf show ?case by (simp add: sorted_wrt_append)
qed

lemma sorted_undecidedBoards: "sorted_wrt (<) (undecidedBoards s)"
  unfolding undecidedBoards_def by (rule sorted_wrt_filter) simp

lemma nine_upt: "[0, 1, 2, 3, 4, 5, 6, 7, 8] = [0..<9::nat]"
  by (simp add: upt_rec)

lemma getValidMoves_won: "globalWinner s \<noteq> None \<Longrightarrow> getValidMoves s = Inr []"
  by (simp add: getValidMoves_def)

lemma getValidMoves_forced:
  assumes "wf_state s" and "globalWinner s = None" and "nextBoardIndex s = Some n"
    and "\<not> decided (smallBoardStatuses s ! n)"
  shows "getValidMoves s = Inr (emptyCellsOf s n)"
proof -
  from assms(1,3) have n: "n < 9" "n < length (smallBoardStatuses s)"
    by (simp_all add: wf_state_def)
  have "collectMoves s [n] [] = Inr (emptyCellsOf s n)"
    using collectMoves_wf [OF assms(1), of "[n]" "[]"] n assms(4) by simp
  with assms(2-4) n show ?thesis
    by (simp add: getValidMoves_def targetBoardsOf_def jsAt_def decided_def
          del: collectMoves.simps)
qed

lemma getValidMoves_free:
  assumes "wf_state s" and "globalWinner s = None"
    and "nextBoardIndex s = None
         \<or> (\<exists>n. nextBoardIndex s = Some n \<and> decided (smallBoardStatuses s ! n))"
  shows "getValidMoves s = Inr (concat (map (emptyCellsOf s) (undecidedBoards s)))"
proof -
  have all: "collectMoves s [0, 1, 2, 3, 4, 5, 6, 7, 8] [] =
      Inr (concat (map (emptyCellsOf s) (undecidedBoards s)))"
    using collectMoves_wf [OF assms(1), of "[0, 1, 2, 3, 4, 5, 6, 7, 8]" "[]"]
    unfolding undecidedBoards_def nine_upt by simp
  from assms(3) show ?thesis
  proof
    assume "nextBoardIndex s = None"
    with assms(2) all show ?thesis
      by (simp add: getValidMoves_def targetBoardsOf_def del: collectMoves.simps)
  next
    assume "\<exists>n. nextBoardIndex s = Some n \<and> decided (smallBoardStatuses s ! n)"
    then obtain n where n: "nextBoardIndex s = Some n" "decided (smallBoardStatuses s ! n)"
      by blast
    with assms(1) have "n < length (smallBoardStatuses s)" by (simp add: wf_state_def)
    with assms(2) n all show ?thesis
      by (auto simp add: getValidMoves_def targetBoardsOf_def jsAt_def decided_def
            simp del: collectMoves.simps)
  qed
qed

text \<open>
  C8. In a well-formed state \<open>getValidMoves\<close> returns no move when the global winner is
  set; otherwise the empty cells of the forced board when it is set and undecided;
  otherwise (no forced board, or a decided one) the empty cells of all undecided boards;
  and the result is always in strictly ascending order of \<open>(boardIndex, cellIndex)\<close>.
  The result is a function of the state alone.
\<close>

theorem getValidMoves_spec:
  assumes "wf_state s"
  shows "(globalWinner s \<noteq> None \<longrightarrow> getValidMoves s = Inr [])
       \<and> (globalWinner s = None \<longrightarrow>
            (\<forall>n. nextBoardIndex s = Some n \<and> \<not> decided (smallBoardStatuses s ! n)
                 \<longrightarrow> getValidMoves s = Inr (emptyCellsOf s n)))
       \<and> (globalWinner s = None \<longrightarrow>
            (nextBoardIndex s = None
               \<or> (\<exists>n. nextBoardIndex s = Some n \<and> decided (smallBoardStatuses s ! n)))
            \<longrightarrow> getValidMoves s = Inr (concat (map (emptyCellsOf s) (undecidedBoards s))))
       \<and> (\<exists>moves. getValidMoves s = Inr moves \<and> sorted_wrt moveLess moves)"
proof -
  note c2 = getValidMoves_forced [OF assms]
  note c3 = getValidMoves_free [OF assms]
  have c4: "\<exists>moves. getValidMoves s = Inr moves \<and> sorted_wrt moveLess moves"
  proof (cases "globalWinner s = None")
    case False
    with getValidMoves_won show ?thesis by simp
  next
    case True
    show ?thesis
    proof (cases "\<exists>n. nextBoardIndex s = Some n \<and> \<not> decided (smallBoardStatuses s ! n)")
      case True
      then obtain n where "nextBoardIndex s = Some n" "\<not> decided (smallBoardStatuses s ! n)"
        by blast
      with c2 [OF \<open>globalWinner s = None\<close>] sorted_emptyCellsOf show ?thesis by simp
    next
      case False
      then have "nextBoardIndex s = None
         \<or> (\<exists>n. nextBoardIndex s = Some n \<and> decided (smallBoardStatuses s ! n))"
        by (cases "nextBoardIndex s") auto
      with c3 [OF \<open>globalWinner s = None\<close>] sorted_concat_emptyCells [OF sorted_undecidedBoards]
      show ?thesis by simp
    qed
  qed
  from getValidMoves_won c2 c3 c4 show ?thesis by blast
qed

lemma stateAfterOpening_reached:
  "handleCellClick None None 4 4 False (resetGameState PvCPU Advanced) = Inr stateAfterOpening"
  by (simp add: handleCellClick_def resetGameState_def stateAfterOpening_def jsAt_def
        createInitialBoard_def createInitialStatuses_def checkSmallBoardStatus_def
        checkGlobalWinner_def WINNING_COMBINATIONS_def decided_def numeral_eq_Suc Let_def)

lemma wf_stateAfterOpening: "wf_state stateAfterOpening"
  by (simp add: wf_state_def stateAfterOpening_def)

lemma stateAfterOpening_moves:
  "getValidMoves stateAfterOpening =
     Inr [(4, 0), (4, 1), (4, 2), (4, 3), (4, 5), (4, 6), (4, 7), (4, 8)]"
proof -
  have e: "emptyCellsOf stateAfterOpening 4 =
      [(4, 0), (4, 1), (4, 2), (4, 3), (4, 5), (4, 6), (4, 7), (4, 8)]"
    by (simp add: emptyCellsOf_def stateAfterOpening_def upt_rec)
  have "getValidMoves stateAfterOpening = Inr (emptyCellsOf stateAfterOpening 4)"
    by (rule getValidMoves_forced [OF wf_stateAfterOpening])
       (simp_all add: stateAfterOpening_def decided_def)
  with e show ?thesis by simp
qed

theorem getValidMoves_spec_witness:
  "wf_state stateAfterOpening
   \<and> getValidMoves stateAfterOpening =
       Inr [(4, 0), (4, 1), (4, 2), (4, 3), (4, 5), (4, 6), (4, 7), (4, 8)]"
proof -
  have e: "emptyCellsOf stateAfterOpening 4 =
      [(4, 0), (4, 1), (4, 2), (4, 3), (4, 5), (4, 6), (4, 7), (4, 8)]"
    by (simp add: emptyCellsOf_def stateAfterOpening_def upt_rec)
  have h: "globalWinner stateAfterOpening = None" "nextBoardIndex stateAfterOpening = Some 4"
    "\<not> decided (smallBoardStatuses stateAfterOpening ! 4)"
    by (simp_all add: stateAfterOpening_def decided_def)
  show ?thesis
    using getValidMoves_spec [OF wf_stateAfterOpening] h e wf_stateAfterOpening by simp
qed

section \<open>Applying and rejecting moves\<close>

lemma checkGlobalWinner_isDraw:
  "checkGlobalWinner statuses = Inr g \<Longrightarrow> isDraw g \<Longrightarrow> list_all decided statuses"
  by (auto simp: checkGlobalWinner_def split: sum.splits option.splits if_splits)

text \<open>What a call that applies the move has checked and what it returns.\<close>

lemma handleCellClick_applied:
  assumes "handleCellClick role lm b c r s = Inr s'" and "s' \<noteq> s"
  obtains g where
    "globalWinner s = None"
    "b < length (board s)" "c < length (board s ! b)" "board s ! b ! c = None"
    "nextBoardIndex s = None \<or> nextBoardIndex s = Some b"
    "b < length (smallBoardStatuses s)" "\<not> decided (smallBoardStatuses s ! b)"
    "c < length (smallBoardStatuses s)"
    "checkGlobalWinner ((smallBoardStatuses s)
        [b := checkSmallBoardStatus ((board s ! b)[c := Some (currentPlayer s)])]) = Inr g"
    "board s' = (board s)[b := (board s ! b)[c := Some (currentPlayer s)]]"
    "smallBoardStatuses s' = (smallBoardStatuses s)
        [b := checkSmallBoardStatus ((board s ! b)[c := Some (currentPlayer s)])]"
    "nextBoardIndex s' = (if decided (smallBoardStatuses s' ! c) then None else Some c)"
    "globalWinner s' = winner g" "isGlobalDraw s' = isDraw g"
    "currentPlayer s' = opponentOf (currentPlayer s)"
    "moveCount s' = moveCount s + 1"
  using assms
  by (auto simp: handleCellClick_def Let_def jsAt_def decided_def opponentOf_def
      split: if_splits option.splits sum.splits)


lemma handleCellClick_keeps_wf:
  assumes "wf_state s" and "handleCellClick role lm b c r s = Inr s'"
  shows "wf_state s'"
proof (cases "s' = s")
  case True
  with assms(1) show ?thesis by simp
next
  case False
  from assms(2) False obtain g where
    b: "b < length (board s)" and c: "c < length (smallBoardStatuses s)" and
    bd: "board s' = (board s)[b := (board s ! b)[c := Some (currentPlayer s)]]" and
    st: "smallBoardStatuses s' = (smallBoardStatuses s)
        [b := checkSmallBoardStatus ((board s ! b)[c := Some (currentPlayer s)])]" and
    nx: "nextBoardIndex s' = (if decided (smallBoardStatuses s' ! c) then None else Some c)"
    by (rule handleCellClick_applied)
  from assms(1) have len: "length (board s) = 9" "length (smallBoardStatuses s) = 9"
    and each: "\<forall>i<9. length (board s ! i) = 9"
    by (simp_all add: wf_state_def list_all_length)
  have "\<forall>i<9. length (board s' ! i) = 9"
    using each len b unfolding bd by (simp add: nth_list_update)
  with len c show ?thesis
    unfolding wf_state_def bd st nx by (simp add: list_all_length bd)
qed

lemma handleCellClick_keeps_drawConsistent:
  assumes "drawConsistent s" and "handleCellClick role lm b c r s = Inr s'"
  shows "drawConsistent s'"
proof (cases "s' = s")
  case True
  with assms(1) show ?thesis by simp
next
  case False
  from assms(2) False obtain g where
    "checkGlobalWinner ((smallBoardStatuses s)
        [b := checkSmallBoardStatus ((board s ! b)[c := Some (currentPlayer s)])]) = Inr g"
    "smallBoardStatuses s' = (smallBoardStatuses s)
        [b := checkSmallBoardStatus ((board s ! b)[c := Some (currentPlayer s)])]"
    "isGlobalDraw s' = isDraw g"
    by (rule handleCellClick_applied)
  then show ?thesis
    unfolding drawConsistent_def using checkGlobalWinner_isDraw by auto
qed

lemma wf_resetGameState: "wf_state (resetGameState mode difficulty)"
  by (simp add: wf_state_def resetGameState_def createInitialBoard_def
        createInitialStatuses_def list_all_length)

lemma reachable_wf: "reachable s \<Longrightarrow> wf_state s"
  by (induction rule: reachable.induct)
     (auto intro: wf_resetGameState handleCellClick_keeps_wf)

lemma reachable_drawConsistent: "reachable s \<Longrightarrow> drawConsistent s"
proof (induction rule: reachable.induct)
  case (reachable_reset mode difficulty)
  show ?case by (simp add: drawConsistent_def resetGameState_def)
next
  case (reachable_click s role lm boardIndex cellIndex isRemote s')
  then show ?case by (auto intro: handleCellClick_keeps_drawConsistent)
qed

lemma reachable_forced_undecided:
  "reachable s \<Longrightarrow> nextBoardIndex s = Some n \<Longrightarrow>
     n < 9 \<and> \<not> decided (smallBoardStatuses s ! n)"
proof (induction arbitrary: n rule: reachable.induct)
  case (reachable_reset mode difficulty)
  then show ?case by (simp add: resetGameState_def)
next
  case (reachable_click s role lm boardIndex cellIndex isRemote s')
  show ?case
  proof (cases "s' = s")
    case True
    with reachable_click show ?thesis by simp
  next
    case False
    from reachable_click(2) False obtain g where
      c: "cellIndex < length (smallBoardStatuses s)" and
      nx: "nextBoardIndex s' =
            (if decided (smallBoardStatuses s' ! cellIndex) then None else Some cellIndex)"
      by (rule handleCellClick_applied)
    from reachable_wf [OF reachable_click(1)] have "length (smallBoardStatuses s) = 9"
      by (simp add: wf_state_def)
    with c nx reachable_click(4) show ?thesis by (auto split: if_splits)
  qed
qed

text \<open>Every stored status of a reachable state is the status of its board.\<close>

lemma checkSmallBoardStatus_empty:
  "checkSmallBoardStatus (replicate 9 None) = \<lparr>winner = None, isDraw = False\<rparr>"
  by (simp add: checkSmallBoardStatus_def WINNING_COMBINATIONS_def jsAt_def numeral_eq_Suc)

lemma reachable_statuses_match:
  "reachable s \<Longrightarrow> i < 9 \<Longrightarrow>
     smallBoardStatuses s ! i = checkSmallBoardStatus (board s ! i)"
proof (induction arbitrary: i rule: reachable.induct)
  case (reachable_reset mode difficulty)
  then show ?case
    by (simp add: resetGameState_def createInitialBoard_def createInitialStatuses_def
        checkSmallBoardStatus_empty)
next
  case (reachable_click s role lm boardIndex cellIndex isRemote s')
  show ?case
  proof (cases "s' = s")
    case True
    with reachable_click show ?thesis by simp
  next
    case False
    from reachable_click(2) False obtain g where
      b: "boardIndex < length (board s)" "boardIndex < length (smallBoardStatuses s)" and
      bd: "board s' =
        (board s)[boardIndex := (board s ! boardIndex)[cellIndex := Some (currentPlayer s)]]" and
      st: "smallBoardStatuses s' = (smallBoardStatuses s)
        [boardIndex := checkSmallBoardStatus
           ((board s ! boardIndex)[cellIndex := Some (currentPlayer s)])]"
      by (rule handleCellClick_applied)
    from reachable_wf [OF reachable_click(1)]
    have len: "length (board s) = 9" "length (smallBoardStatuses s) = 9"
      by (simp_all add: wf_state_def)
    show ?thesis
    proof (cases "i = boardIndex")
      case True
      with b show ?thesis unfolding bd st by simp
    next
      case False
      with reachable_click(3) [OF reachable_click(4)] show ?thesis
        unfolding bd st by simp
    qed
  qed
qed

text \<open>
  C2. A call of \<open>handleCellClick\<close> that applies a move into cell \<open>c\<close> of board \<open>b\<close> stores
  the statuses with the status of board \<open>b\<close> computed anew, and leaves \<open>nextBoardIndex\<close>
  at \<open>c\<close> if board \<open>c\<close> is undecided in those statuses, the ones after the move, and at
  \<open>null\<close> if it is won or drawn there. Hence in every state reached from a fresh one the
  forced board, when set, is one of the nine, its stored status is the status of its
  cells, and it is neither won nor drawn.
\<close>

theorem forcedBoard_after_move:
  "(\<forall>s'. handleCellClick role lm b c r s = Inr s' \<and> s' \<noteq> s \<longrightarrow>
       smallBoardStatuses s' = statusesAfterMove s b c
       \<and> nextBoardIndex s' =
           (if decided (statusesAfterMove s b c ! c) then None else Some c))
   \<and> (reachable s \<longrightarrow>
        (\<forall>n. nextBoardIndex s = Some n \<longrightarrow>
           n < 9
           \<and> smallBoardStatuses s ! n = checkSmallBoardStatus (board s ! n)
           \<and> \<not> decided (checkSmallBoardStatus (board s ! n))))"
proof -
  have step: "smallBoardStatuses s' = statusesAfterMove s b c
       \<and> nextBoardIndex s' =
           (if decided (statusesAfterMove s b c ! c) then None else Some c)"
    if "handleCellClick role lm b c r s = Inr s'" "s' \<noteq> s" for s'
  proof -
    from that obtain g where
      st: "smallBoardStatuses s' = (smallBoardStatuses s)
        [b := checkSmallBoardStatus ((board s ! b)[c := Some (currentPlayer s)])]" and
      nx: "nextBoardIndex s' = (if decided (smallBoardStatuses s' ! c) then None else Some c)"
      by (rule handleCellClick_applied)
    from st have "smallBoardStatuses s' = statusesAfterMove s b c"
      by (simp add: statusesAfterMove_def)
    with nx show ?thesis by simp
  qed
  have inv: "n < 9
           \<and> smallBoardStatuses s ! n = checkSmallBoardStatus (board s ! n)
           \<and> \<not> decided (checkSmallBoardStatus (board s ! n))"
    if "reachable s" "nextBoardIndex s = Some n" for n
  proof -
    from reachable_forced_undecided [OF that]
    have n: "n < 9" and u: "\<not> decided (smallBoardStatuses s ! n)" by simp_all
    from reachable_statuses_match [OF that(1) n] u n show ?thesis by simp
  qed
  from step inv show ?thesis by blast
qed

lemma selfSendState_applied:
  "\<exists>s'. handleCellClick None None 0 0 False selfSendState = Inr s' \<and> moveCount s' = 5"
  by (simp add: handleCellClick_def selfSendState_def jsAt_def checkSmallBoardStatus_def
      checkGlobalWinner_def WINNING_COMBINATIONS_def decided_def numeral_eq_Suc Let_def)

lemma statusesAfterMove_selfSend:
  "statusesAfterMove selfSendState 0 0 ! 0 = \<lparr>winner = Some Player_X, isDraw = False\<rparr>"
  by (simp add: statusesAfterMove_def selfSendState_def checkSmallBoardStatus_def
      WINNING_COMBINATIONS_def jsAt_def)

theorem forcedBoard_after_move_witness:
  "(\<exists>s'. handleCellClick None None 0 0 False selfSendState = Inr s'
        \<and> s' \<noteq> selfSendState
        \<and> smallBoardStatuses s' ! 0 = \<lparr>winner = Some Player_X, isDraw = False\<rparr>
        \<and> nextBoardIndex s' = None)
   \<and> handleCellClick None None 4 4 False (resetGameState PvCPU Advanced) = Inr stateAfterOpening
   \<and> stateAfterOpening \<noteq> resetGameState PvCPU Advanced
   \<and> reachable stateAfterOpening
   \<and> nextBoardIndex stateAfterOpening = Some 4
   \<and> \<not> decided (checkSmallBoardStatus (board stateAfterOpening ! 4))"
proof -
  from selfSendState_applied obtain s1 where
    s1: "handleCellClick None None 0 0 False selfSendState = Inr s1" and m: "moveCount s1 = 5"
    by blast
  have "moveCount selfSendState = 4" by (simp add: selfSendState_def)
  with m have ne1: "s1 \<noteq> selfSendState" by auto
  from forcedBoard_after_move [of None None 0 0 False selfSendState] s1 ne1
  have "smallBoardStatuses s1 = statusesAfterMove selfSendState 0 0"
    and "nextBoardIndex s1 =
      (if decided (statusesAfterMove selfSendState 0 0 ! 0) then None else Some 0)"
    by blast+
  then have won: "smallBoardStatuses s1 ! 0 = \<lparr>winner = Some Player_X, isDraw = False\<rparr>"
    and free: "nextBoardIndex s1 = None"
    by (simp_all add: statusesAfterMove_selfSend decided_def)
  have ne: "stateAfterOpening \<noteq> resetGameState PvCPU Advanced"
  proof
    assume "stateAfterOpening = resetGameState PvCPU Advanced"
    then have "moveCount stateAfterOpening = moveCount (resetGameState PvCPU Advanced)"
      by simp
    then show False by (simp add: stateAfterOpening_def resetGameState_def)
  qed
  have r: "reachable stateAfterOpening"
    using reachable_click [OF reachable_reset stateAfterOpening_reached] .
  have n: "nextBoardIndex stateAfterOpening = Some 4"
    by (simp add: stateAfterOpening_def)
  from forcedBoard_after_move [of None None 0 0 False stateAfterOpening] r n
  have "\<not> decided (checkSmallBoardStatus (board stateAfterOpening ! 4))"
    by blast
  with s1 ne1 won free stateAfterOpening_reached ne r n show ?thesis by blast
qed

text \<open>
  The guards of \<open>handleCellClick\<close> on a well-formed state whose draw flag agrees with its
  statuses. The function never reads \<open>isGlobalDraw\<close>; a drawn game is turned away by the
  guard on the status of the target board.
\<close>

lemma handleCellClick_rejects:
  assumes "wf_state s" and "drawConsistent s" and "b < 9" and "c < 9"
    and "board s ! b ! c \<noteq> None \<or> globalWinner s \<noteq> None \<or> isGlobalDraw s
         \<or> (\<exists>n. nextBoardIndex s = Some n \<and> n \<noteq> b)"
  shows "handleCellClick role lm b c r s = Inr s"
proof -
  from assms(1,3,4) have len: "b < length (board s)" "c < length (board s ! b)"
    "b < length (smallBoardStatuses s)"
    by (simp_all add: wf_state_def list_all_length)
  from assms(2) len(3) have draw: "isGlobalDraw s \<longrightarrow> decided (smallBoardStatuses s ! b)"
    by (simp add: drawConsistent_def list_all_length)
  from assms(5) draw len show ?thesis
    by (auto simp: handleCellClick_def jsAt_def decided_def)
qed

text \<open>
  C1. In every state of a match, that is every state reached from a fresh one, and for
  every board and cell index below nine, \<open>handleCellClick\<close> returns the state it was
  given, unchanged in every field, which is how it rejects a move, whenever the target
  cell is not empty, the global winner is set, the game is a global draw, or a forced
  board is set and is another board. This holds for local and remote calls and for
  every role.
\<close>

theorem illegal_move_rejected:
  assumes "reachable s" and "b < 9" and "c < 9"
    and "board s ! b ! c \<noteq> None \<or> globalWinner s \<noteq> None \<or> isGlobalDraw s
         \<or> (\<exists>n. nextBoardIndex s = Some n \<and> n \<noteq> b)"
  shows "handleCellClick role lm b c r s = Inr s"
proof -
  from assms(1) have "wf_state s" by (rule reachable_wf)
  moreover from assms(1) have "drawConsistent s" by (rule reachable_drawConsistent)
  ultimately show ?thesis
    using assms(2-4) by (rule handleCellClick_rejects)
qed

theorem illegal_move_rejected_witness:
  "reachable stateAfterOpening
   \<and> nextBoardIndex stateAfterOpening = Some 4
   \<and> handleCellClick None None 3 0 False stateAfterOpening = Inr stateAfterOpening
   \<and> board stateAfterOpening ! 4 ! 4 = Some Player_X
   \<and> handleCellClick None None 4 4 False stateAfterOpening = Inr stateAfterOpening"
proof -
  have r: "reachable stateAfterOpening"
    using reachable_click [OF reachable_reset stateAfterOpening_reached] .
  have n: "nextBoardIndex stateAfterOpening = Some 4"
    and o: "board stateAfterOpening ! 4 ! 4 = Some Player_X"
    by (simp_all add: stateAfterOpening_def)
  from illegal_move_rejected [OF r, of 3 0 None None False] n
  have "handleCellClick None None 3 0 False stateAfterOpening = Inr stateAfterOpening"
    by simp
  moreover
  from illegal_move_rejected [OF r, of 4 4 None None False] o
  have "handleCellClick None None 4 4 False stateAfterOpening = Inr stateAfterOpening"
    by simp
  ultimately show ?thesis using r n o by simp
qed

section \<open>Disconnection\<close>

lemma onCellClick_not_connected:
  assumes "gameMode (gameState g) = PvOnline" and "onlineState g \<noteq> CONNECTED"
  shows "onCellClick g b c = Inr g"
  using assms by (simp add: onCellClick_def isInteractionAllowed_def)

lemma localClicks_not_connected:
  assumes "gameMode (gameState g) = PvOnline" and "onlineState g \<noteq> CONNECTED"
  shows "localClicks g clicks = Inr g"
  using assms by (induction clicks) (simp_all add: onCellClick_not_connected)

text \<open>
  C3. Once \<open>handleOnlineDisconnect\<close> has run during an online match, every click of the
  local player, and every run of such clicks, leaves the component as it is: the game
  state is the one the disconnect left, which is the one before it. The clicks are
  stopped by \<open>isInteractionAllowed\<close>, which the render computes from \<open>onlineState\<close>;
  they do not reach \<open>handleCellClick\<close>.
\<close>

theorem disconnected_rejects_local_moves:
  assumes "gameMode (gameState g) = PvOnline"
  shows "gameState (handleOnlineDisconnect g) = gameState g
       \<and> onCellClick (handleOnlineDisconnect g) b c = Inr (handleOnlineDisconnect g)
       \<and> localClicks (handleOnlineDisconnect g) clicks = Inr (handleOnlineDisconnect g)"
proof -
  have m: "gameMode (gameState (handleOnlineDisconnect g)) = PvOnline"
    and d: "onlineState (handleOnlineDisconnect g) \<noteq> CONNECTED"
    using assms by (simp_all add: handleOnlineDisconnect_def)
  show ?thesis
    using onCellClick_not_connected [OF m d] localClicks_not_connected [OF m d]
    by (simp add: handleOnlineDisconnect_def)
qed

text \<open>The same click is applied while the host is connected, and not after the disconnect.\<close>

lemma hostConnected_click_applied:
  "onCellClick hostConnected 4 4 \<noteq> Inr hostConnected"
proof -
  have "\<exists>g'. onCellClick hostConnected 4 4 = Inr g' \<and> lastMove g' = Some (4, 4)"
    by (simp add: onCellClick_def isInteractionAllowed_def callHandleCellClick_def
        hostConnected_def handleCellClick_def resetGameState_def jsAt_def myPlayerOf_def
        createInitialBoard_def createInitialStatuses_def checkSmallBoardStatus_def
        checkGlobalWinner_def WINNING_COMBINATIONS_def decided_def numeral_eq_Suc Let_def)
  moreover have "lastMove hostConnected = None" by (simp add: hostConnected_def)
  ultimately show ?thesis by auto
qed

theorem disconnected_rejects_local_moves_witness:
  "gameMode (gameState hostConnected) = PvOnline
   \<and> gameState (handleOnlineDisconnect hostConnected) = gameState hostConnected
   \<and> onCellClick (handleOnlineDisconnect hostConnected) 4 4
       = Inr (handleOnlineDisconnect hostConnected)
   \<and> localClicks (handleOnlineDisconnect hostConnected) [(4, 4), (0, 0), (4, 4)]
       = Inr (handleOnlineDisconnect hostConnected)"
proof -
  have m: "gameMode (gameState hostConnected) = PvOnline"
    by (simp add: hostConnected_def resetGameState_def)
  from disconnected_rejects_local_moves [OF m, of 4 4 "[(4, 4), (0, 0), (4, 4)]"] m
  show ?thesis by (simp del: localClicks.simps)
qed

section \<open>The Intermediate tier\<close>

lemma find_Some_in: "find P xs = Some x \<Longrightarrow> x \<in> set xs \<and> P x"
  by (induction xs) (auto split: if_splits)

lemma canWinFrom_find:
  "canWinFrom cells player is =
     find (\<lambda>i. jsAt cells i = Some None
               \<and> winner (checkSmallBoardStatus (cells[i := Some player])) = Some player) is"
  by (induction "is") simp_all

lemma canWinBoard_find:
  "canWinBoard cells player =
     find (\<lambda>i. jsAt cells i = Some None
               \<and> winner (checkSmallBoardStatus (cells[i := Some player])) = Some player) [0..<9]"
  unfolding canWinBoard_def canWinFrom_find nine_upt ..

lemma canWinBoard_Some:
  assumes "canWinBoard cells player = Some i"
  shows "i < 9 \<and> i < length cells \<and> cells ! i = None
       \<and> winner (checkSmallBoardStatus (cells[i := Some player])) = Some player"
proof -
  from find_Some_in [OF assms [unfolded canWinBoard_find]]
  have "i \<in> set [0..<9]" and "jsAt cells i = Some None"
    and "winner (checkSmallBoardStatus (cells[i := Some player])) = Some player"
    by blast+
  then show ?thesis by (auto simp: jsAt_def split: if_splits)
qed

lemma canWinBoard_exists:
  assumes "c < 9" "c < length cells" "cells ! c = None"
    and "winner (checkSmallBoardStatus (cells[c := Some player])) = Some player"
  shows "\<exists>i. canWinBoard cells player = Some i"
proof -
  from assms(1) have "c \<in> set [0..<9]" by simp
  with assms(2-4) have "find (\<lambda>i. jsAt cells i = Some None
               \<and> winner (checkSmallBoardStatus (cells[i := Some player])) = Some player)
          [0..<9] \<noteq> None"
    unfolding find_None_iff_set by (auto simp: jsAt_def)
  then show ?thesis
    unfolding canWinBoard_find by auto
qed

lemma findWinningCell_find:
  assumes "\<forall>m\<in>set moves. fst m < length boards"
  shows "findWinningCell boards player moves =
     Inr (find (\<lambda>m. canWinBoard (boards ! fst m) player = Some (snd m)) moves)"
  using assms by (induction moves) (simp_all add: jsAt_def)

text \<open>The legal moves of a well-formed state, as a set.\<close>

lemma set_emptyCellsOf:
  "set (emptyCellsOf s b) = {(b, c) | c. c < 9 \<and> board s ! b ! c = None}"
  by (auto simp: emptyCellsOf_def)

lemma getValidMoves_members:
  assumes "wf_state s" and "getValidMoves s = Inr validMoves" and "(b, c) \<in> set validMoves"
  shows "b < 9 \<and> c < 9 \<and> board s ! b ! c = None
       \<and> (\<forall>c'<9. board s ! b ! c' = None \<longrightarrow> (b, c') \<in> set validMoves)"
proof -
  have gw: "globalWinner s = None"
  proof (rule ccontr)
    assume "globalWinner s \<noteq> None"
    from getValidMoves_won [OF this] assms(2,3) show False by simp
  qed
  show ?thesis
  proof (cases "\<exists>n. nextBoardIndex s = Some n \<and> \<not> decided (smallBoardStatuses s ! n)")
    case True
    then obtain n where n: "nextBoardIndex s = Some n" "\<not> decided (smallBoardStatuses s ! n)"
      by blast
    with assms(1) have n9: "n < 9" by (simp add: wf_state_def)
    from getValidMoves_forced [OF assms(1) gw n] assms(2)
    have "validMoves = emptyCellsOf s n" by simp
    with assms(3) n9 show ?thesis by (auto simp: set_emptyCellsOf)
  next
    case False
    then have "nextBoardIndex s = None
         \<or> (\<exists>n. nextBoardIndex s = Some n \<and> decided (smallBoardStatuses s ! n))"
      by (cases "nextBoardIndex s") auto
    from getValidMoves_free [OF assms(1) gw this] assms(2)
    have vm: "validMoves = concat (map (emptyCellsOf s) (undecidedBoards s))" by simp
    from assms(3) have bu: "b \<in> set (undecidedBoards s)" and bc: "(b, c) \<in> set (emptyCellsOf s b)"
      unfolding vm by (auto simp: set_emptyCellsOf)
    from bu have "b < 9" by (simp add: undecidedBoards_def)
    moreover from bc have "c < 9 \<and> board s ! b ! c = None" by (simp add: set_emptyCellsOf)
    moreover have "(b, c') \<in> set validMoves" if "c' < 9" "board s ! b ! c' = None" for c'
      unfolding vm using bu that by (auto simp: set_emptyCellsOf)
    ultimately show ?thesis by blast
  qed
qed

lemma getValidMoves_total:
  assumes "wf_state s"
  shows "\<exists>validMoves. getValidMoves s = Inr validMoves"
proof (cases "globalWinner s = None")
  case False
  then show ?thesis by (simp add: getValidMoves_won)
next
  case True
  show ?thesis
  proof (cases "\<exists>n. nextBoardIndex s = Some n \<and> \<not> decided (smallBoardStatuses s ! n)")
    case True
    with getValidMoves_forced [OF assms \<open>globalWinner s = None\<close>] show ?thesis by blast
  next
    case False
    then have "nextBoardIndex s = None
         \<or> (\<exists>n. nextBoardIndex s = Some n \<and> decided (smallBoardStatuses s ! n))"
      by (cases "nextBoardIndex s") auto
    with getValidMoves_free [OF assms \<open>globalWinner s = None\<close>] show ?thesis by blast
  qed
qed

text \<open>
  With the legal moves of a well-formed state, the loop of the Intermediate tier finds a
  move for \<open>player\<close> exactly when some legal move takes a cell that wins its board for
  \<open>player\<close>, and the move it finds is such a move.
\<close>

lemma findWinningCell_legal:
  assumes "wf_state s" and "getValidMoves s = Inr validMoves"
  shows "\<exists>r. findWinningCell (board s) player validMoves = Inr r
       \<and> (\<forall>m. r = Some m \<longrightarrow> m \<in> set validMoves \<and> winsSubBoard s player m)
       \<and> (r = None \<longleftrightarrow> \<not> (\<exists>m\<in>set validMoves. winsSubBoard s player m))"
proof -
  let ?Q = "\<lambda>m. canWinBoard (board s ! fst m) player = Some (snd m)"
  from assms(1) have len: "length (board s) = 9" "\<forall>i<9. length (board s ! i) = 9"
    by (simp_all add: wf_state_def list_all_length)
  have inb: "\<forall>m\<in>set validMoves. fst m < length (board s)"
    using getValidMoves_members [OF assms] len by (metis prod.collapse)
  have res: "findWinningCell (board s) player validMoves = Inr (find ?Q validMoves)"
    using inb by (rule findWinningCell_find)
  have sound: "m \<in> set validMoves \<and> winsSubBoard s player m" if "find ?Q validMoves = Some m" for m
  proof -
    from find_Some_in [OF that] have m: "m \<in> set validMoves" and q: "?Q m" by simp_all
    from canWinBoard_Some [OF q] have "winsSubBoard s player (fst m, snd m)"
      unfolding winsSubBoard.simps by simp
    with m show ?thesis by simp
  qed
  have complete: "find ?Q validMoves \<noteq> None"
    if "m \<in> set validMoves" "winsSubBoard s player m" for m
  proof -
    obtain b c where bc: "m = (b, c)" by (cases m) auto
    from getValidMoves_members [OF assms, of b c] that(1) bc
    have b: "b < 9" and c: "c < 9" and e: "board s ! b ! c = None"
      and closed: "\<forall>c'<9. board s ! b ! c' = None \<longrightarrow> (b, c') \<in> set validMoves"
      by simp_all
    from len b c have cl: "c < length (board s ! b)" by simp
    from that(2) bc
    have "winner (checkSmallBoardStatus ((board s ! b)[c := Some player])) = Some player"
      by simp
    from canWinBoard_exists [OF c cl e this]
    obtain i where i: "canWinBoard (board s ! b) player = Some i" by blast
    from canWinBoard_Some [OF i] closed have "(b, i) \<in> set validMoves" by simp
    moreover from i have "?Q (b, i)" by simp
    ultimately show ?thesis unfolding find_None_iff_set by blast
  qed
  show ?thesis
    unfolding res using sound complete
    by (cases "find ?Q validMoves") (auto simp del: winsSubBoard.simps)
qed


text \<open>
  C5. In a well-formed state the Intermediate tier returns a legal move that wins its
  sub-board whenever some legal move does; and when none does but some legal move takes
  a cell with which the opponent would win that sub-board, it returns such a move. This
  holds whatever the random source gives.
\<close>

theorem intermediate_wins_or_blocks:
  assumes "wf_state s" and "aiDifficulty s = Intermediate"
    and "getValidMoves s = Inr validMoves"
  shows "((\<exists>m\<in>set validMoves. winsSubBoard s (currentPlayer s) m) \<longrightarrow>
            (\<exists>m. getAiMove rnd s = Inr (Some m) \<and> m \<in> set validMoves
                 \<and> winsSubBoard s (currentPlayer s) m))
       \<and> (\<not> (\<exists>m\<in>set validMoves. winsSubBoard s (currentPlayer s) m)
            \<and> (\<exists>m\<in>set validMoves. winsSubBoard s (opponentOf (currentPlayer s)) m) \<longrightarrow>
            (\<exists>m. getAiMove rnd s = Inr (Some m) \<and> m \<in> set validMoves
                 \<and> winsSubBoard s (opponentOf (currentPlayer s)) m))"
proof -
  from findWinningCell_legal [OF assms(1,3), of "currentPlayer s"]
  obtain r1 where r1: "findWinningCell (board s) (currentPlayer s) validMoves = Inr r1"
    and s1: "\<forall>m. r1 = Some m \<longrightarrow> m \<in> set validMoves \<and> winsSubBoard s (currentPlayer s) m"
    and n1: "r1 = None \<longleftrightarrow> \<not> (\<exists>m\<in>set validMoves. winsSubBoard s (currentPlayer s) m)"
    by blast
  from findWinningCell_legal [OF assms(1,3), of "opponentOf (currentPlayer s)"]
  obtain r2 where
    r2: "findWinningCell (board s) (opponentOf (currentPlayer s)) validMoves = Inr r2"
    and s2: "\<forall>m. r2 = Some m \<longrightarrow>
               m \<in> set validMoves \<and> winsSubBoard s (opponentOf (currentPlayer s)) m"
    and n2: "r2 = None \<longleftrightarrow>
               \<not> (\<exists>m\<in>set validMoves. winsSubBoard s (opponentOf (currentPlayer s)) m)"
    by blast
  have win: "\<exists>m. getAiMove rnd s = Inr (Some m) \<and> m \<in> set validMoves
                 \<and> winsSubBoard s (currentPlayer s) m"
    if "\<exists>m\<in>set validMoves. winsSubBoard s (currentPlayer s) m"
  proof -
    from that n1 obtain m where m: "r1 = Some m" by auto
    from that have "validMoves \<noteq> []" by auto
    then have "getAiMove rnd s = Inr (Some m)"
      using assms(2,3) r1 m by (simp add: getAiMove_def)
    with s1 m show ?thesis by simp
  qed
  have block: "\<exists>m. getAiMove rnd s = Inr (Some m) \<and> m \<in> set validMoves
                 \<and> winsSubBoard s (opponentOf (currentPlayer s)) m"
    if "\<not> (\<exists>m\<in>set validMoves. winsSubBoard s (currentPlayer s) m)"
      and "\<exists>m\<in>set validMoves. winsSubBoard s (opponentOf (currentPlayer s)) m"
  proof -
    from that(1) n1 have none: "r1 = None" by simp
    from that(2) n2 obtain m where m: "r2 = Some m" by auto
    from that(2) have "validMoves \<noteq> []" by auto
    then have "getAiMove rnd s = Inr (Some m)"
      using assms(2,3) r1 none r2 m by (simp add: getAiMove_def)
    with s2 m show ?thesis by simp
  qed
  from win block show ?thesis by blast
qed

lemma intermediateWinState_moves:
  "wf_state intermediateWinState
   \<and> getValidMoves intermediateWinState = Inr [(4, 2), (4, 5), (4, 6), (4, 7), (4, 8)]"
proof -
  have wf: "wf_state intermediateWinState"
    by (simp add: wf_state_def intermediateWinState_def)
  have e: "emptyCellsOf intermediateWinState 4 = [(4, 2), (4, 5), (4, 6), (4, 7), (4, 8)]"
    by (simp add: emptyCellsOf_def intermediateWinState_def upt_rec)
  have "getValidMoves intermediateWinState = Inr (emptyCellsOf intermediateWinState 4)"
    by (rule getValidMoves_forced [OF wf])
       (simp_all add: intermediateWinState_def decided_def)
  with wf e show ?thesis by simp
qed

lemma intermediateBlockState_moves:
  "wf_state intermediateBlockState
   \<and> getValidMoves intermediateBlockState =
       Inr [(4, 1), (4, 2), (4, 5), (4, 6), (4, 7), (4, 8)]"
proof -
  have wf: "wf_state intermediateBlockState"
    by (simp add: wf_state_def intermediateBlockState_def)
  have e: "emptyCellsOf intermediateBlockState 4 =
      [(4, 1), (4, 2), (4, 5), (4, 6), (4, 7), (4, 8)]"
    by (simp add: emptyCellsOf_def intermediateBlockState_def upt_rec)
  have "getValidMoves intermediateBlockState = Inr (emptyCellsOf intermediateBlockState 4)"
    by (rule getValidMoves_forced [OF wf])
       (simp_all add: intermediateBlockState_def decided_def)
  with wf e show ?thesis by simp
qed

lemmas board_eval =
  checkSmallBoardStatus_def WINNING_COMBINATIONS_def jsAt_def

theorem intermediate_wins_or_blocks_witness:
  "wf_state intermediateWinState \<and> aiDifficulty intermediateWinState = Intermediate
   \<and> getValidMoves intermediateWinState = Inr [(4, 2), (4, 5), (4, 6), (4, 7), (4, 8)]
   \<and> winsSubBoard intermediateWinState (currentPlayer intermediateWinState) (4, 2)
   \<and> (\<exists>m. getAiMove (\<lambda>k. 0) intermediateWinState = Inr (Some m)
          \<and> winsSubBoard intermediateWinState (currentPlayer intermediateWinState) m)
   \<and> wf_state intermediateBlockState \<and> aiDifficulty intermediateBlockState = Intermediate
   \<and> getValidMoves intermediateBlockState =
       Inr [(4, 1), (4, 2), (4, 5), (4, 6), (4, 7), (4, 8)]
   \<and> \<not> (\<exists>m\<in>set [(4, 1), (4, 2), (4, 5), (4, 6), (4, 7), (4, 8)].
          winsSubBoard intermediateBlockState (currentPlayer intermediateBlockState) m)
   \<and> winsSubBoard intermediateBlockState
        (opponentOf (currentPlayer intermediateBlockState)) (4, 5)
   \<and> (\<exists>m. getAiMove (\<lambda>k. 0) intermediateBlockState = Inr (Some m)
          \<and> winsSubBoard intermediateBlockState
               (opponentOf (currentPlayer intermediateBlockState)) m)"
proof -
  have a1: "aiDifficulty intermediateWinState = Intermediate"
    by (simp add: intermediateWinState_def)
  have w1: "winsSubBoard intermediateWinState (currentPlayer intermediateWinState) (4, 2)"
    by (simp add: intermediateWinState_def board_eval)
  have a2: "aiDifficulty intermediateBlockState = Intermediate"
    by (simp add: intermediateBlockState_def)
  have n2: "\<not> (\<exists>m\<in>set [(4, 1), (4, 2), (4, 5), (4, 6), (4, 7), (4, 8)].
          winsSubBoard intermediateBlockState (currentPlayer intermediateBlockState) m)"
    by (simp add: intermediateBlockState_def board_eval)
  have w2: "winsSubBoard intermediateBlockState
        (opponentOf (currentPlayer intermediateBlockState)) (4, 5)"
    by (simp add: intermediateBlockState_def board_eval opponentOf_def)
  note m1 = intermediateWinState_moves
  note m2 = intermediateBlockState_moves
  from intermediate_wins_or_blocks [OF conjunct1 [OF m1] a1 conjunct2 [OF m1], of "\<lambda>k. 0"] w1
  have r1: "\<exists>m. getAiMove (\<lambda>k. 0) intermediateWinState = Inr (Some m)
          \<and> winsSubBoard intermediateWinState (currentPlayer intermediateWinState) m"
    by (auto simp del: winsSubBoard.simps)
  from intermediate_wins_or_blocks [OF conjunct1 [OF m2] a2 conjunct2 [OF m2], of "\<lambda>k. 0"] n2 w2
  have r2: "\<exists>m. getAiMove (\<lambda>k. 0) intermediateBlockState = Inr (Some m)
          \<and> winsSubBoard intermediateBlockState
               (opponentOf (currentPlayer intermediateBlockState)) m"
    by (auto simp del: winsSubBoard.simps)
  from m1 a1 w1 r1 m2 a2 n2 w2 r2 show ?thesis by blast
qed

section \<open>Every tier plays a legal move\<close>

lemma randomPick_member: "randomPick r xs = Some x \<Longrightarrow> x \<in> set xs"
  by (auto simp: randomPick_def Let_def split: if_splits)

lemma jsAt_member: "jsAt xs i = Some x \<Longrightarrow> x \<in> set xs"
  by (auto simp: jsAt_def split: if_splits)

lemma findWinningCell_member:
  "findWinningCell boards player moves = Inr (Some m) \<Longrightarrow> m \<in> set moves"
  by (induction moves) (auto split: option.splits if_splits)

lemma advancedLoop_subset:
  "advancedLoop s rnd k moves bestScore bestMoves = Inr result \<Longrightarrow>
     set result \<subseteq> set bestMoves \<union> set moves"
proof (induction moves arbitrary: k bestScore bestMoves)
  case Nil
  then show ?case by simp
next
  case (Cons move rest)
  from Cons.prems obtain base where base: "evaluateMove s move = Inr base"
    by (cases "evaluateMove s move") (simp_all add: Let_def)
  let ?score = "real_of_int base + rnd k * 5"
  consider (first) "bestScore = None"
    | (better) best where "bestScore = Some best" "?score > best"
    | (near) best where "bestScore = Some best" "\<not> ?score > best" "\<bar>?score - best\<bar> < 1 / 10"
    | (far) best where "bestScore = Some best" "\<not> ?score > best" "\<not> \<bar>?score - best\<bar> < 1 / 10"
    by (cases bestScore) auto
  then show ?case
  proof cases
    case first
    with Cons.prems base have "advancedLoop s rnd (Suc k) rest (Some ?score) [move] = Inr result"
      by (simp add: Let_def)
    from Cons.IH [OF this] show ?thesis by auto
  next
    case better
    with Cons.prems base have "advancedLoop s rnd (Suc k) rest (Some ?score) [move] = Inr result"
      by (simp add: Let_def)
    from Cons.IH [OF this] show ?thesis by auto
  next
    case near
    with Cons.prems base
    have "advancedLoop s rnd (Suc k) rest bestScore (bestMoves @ [move]) = Inr result"
      by (simp add: Let_def)
    from Cons.IH [OF this] show ?thesis by auto
  next
    case far
    with Cons.prems base
    have "advancedLoop s rnd (Suc k) rest bestScore bestMoves = Inr result"
      by (simp add: Let_def)
    from Cons.IH [OF this] show ?thesis by auto
  qed
qed

text \<open>
  C10. Whenever \<open>getAiMove\<close> returns a move, in any state, for any tier and any random
  source, \<open>getValidMoves\<close> has returned for that state and the move is one of its moves.
\<close>

theorem getAiMove_legal:
  assumes "getAiMove rnd s = Inr (Some m)"
  shows "\<exists>validMoves. getValidMoves s = Inr validMoves \<and> m \<in> set validMoves"
proof -
  from assms obtain validMoves where vm: "getValidMoves s = Inr validMoves"
    by (cases "getValidMoves s") (simp_all add: getAiMove_def)
  from assms vm have ne: "validMoves \<noteq> []"
    by (auto simp: getAiMove_def)
  have "m \<in> set validMoves"
  proof (cases "aiDifficulty s")
    case Beginner
    with assms vm ne have "randomPick (rnd 0) validMoves = Some m"
      by (simp add: getAiMove_def)
    then show ?thesis by (rule randomPick_member)
  next
    case Intermediate
    with assms vm ne show ?thesis
      by (auto simp: getAiMove_def split: sum.splits option.splits
          dest: findWinningCell_member randomPick_member)
  next
    case Advanced
    with assms vm ne obtain bestMoves where
      bm: "advancedLoop s rnd 0 validMoves None [] = Inr bestMoves"
      and pick: "(bestMoves \<noteq> [] \<and> randomPick (rnd (length validMoves)) bestMoves = Some m)
               \<or> (bestMoves = [] \<and> jsAt validMoves 0 = Some m)"
      by (auto simp: getAiMove_def split: sum.splits if_splits)
    from advancedLoop_subset [OF bm] have "set bestMoves \<subseteq> set validMoves" by simp
    with pick show ?thesis
      by (auto dest: randomPick_member jsAt_member)
  qed
  with vm show ?thesis by blast
qed

lemma intermediateWinState_plays:
  "getAiMove (\<lambda>k. 0) intermediateWinState = Inr (Some (4, 2))"
proof -
  have c: "canWinBoard
      [Some Player_O, Some Player_O, None, Some Player_X, Some Player_X, None, None, None, None]
      Player_O = Some 2"
    by (simp add: canWinBoard_def board_eval)
  show ?thesis
    using intermediateWinState_moves
    by (simp add: getAiMove_def intermediateWinState_def c jsAt_def)
qed

theorem getAiMove_legal_witness:
  "getAiMove (\<lambda>k. 0) intermediateWinState = Inr (Some (4, 2))
   \<and> (\<exists>validMoves. getValidMoves intermediateWinState = Inr validMoves
         \<and> (4, 2) \<in> set validMoves)"
  using getAiMove_legal [OF intermediateWinState_plays] intermediateWinState_plays by simp

section \<open>The score of a winning centre move\<close>

lemma getValidMoves_undecided:
  assumes "wf_state s" and "getValidMoves s = Inr validMoves" and "(b, c) \<in> set validMoves"
  shows "\<not> decided (smallBoardStatuses s ! b)"
proof -
  have gw: "globalWinner s = None"
  proof (rule ccontr)
    assume "globalWinner s \<noteq> None"
    from getValidMoves_won [OF this] assms(2,3) show False by simp
  qed
  show ?thesis
  proof (cases "\<exists>n. nextBoardIndex s = Some n \<and> \<not> decided (smallBoardStatuses s ! n)")
    case True
    then obtain n where n: "nextBoardIndex s = Some n" "\<not> decided (smallBoardStatuses s ! n)"
      by blast
    from getValidMoves_forced [OF assms(1) gw n] assms(2)
    have "validMoves = emptyCellsOf s n" by simp
    with assms(3) n show ?thesis by (auto simp: set_emptyCellsOf)
  next
    case False
    then have "nextBoardIndex s = None
         \<or> (\<exists>n. nextBoardIndex s = Some n \<and> decided (smallBoardStatuses s ! n))"
      by (cases "nextBoardIndex s") auto
    from getValidMoves_free [OF assms(1) gw this] assms(2)
    have "validMoves = concat (map (emptyCellsOf s) (undecidedBoards s))" by simp
    with assms(3) have "b \<in> set (undecidedBoards s)"
      by (auto simp: set_emptyCellsOf)
    then show ?thesis by (simp add: undecidedBoards_def)
  qed
qed

text \<open>
  C9, amended. When the centre cell of the centre board is legal, wins that board and
  completes the meta-board win, \<open>evaluateMove\<close> gives 100 + 10000 + 20 + 5 = 10125, and
  in addition + 80 if that cell is the one \<open>canWinBoard\<close> reports for the opponent on the
  centre board, and - 100 if \<open>canWinBoard\<close> reports any cell for the opponent there, the
  centre board being the destination too: 10125 only when the opponent has no winning
  cell on the centre board, otherwise 10105 or 10025.
\<close>

theorem evaluateMove_centre_win:
  assumes "wf_state s" and "getValidMoves s = Inr validMoves" and "(4, 4) \<in> set validMoves"
    and "winsSubBoard s (currentPlayer s) (4, 4)" and "completesMetaWin s (4, 4)"
  shows "evaluateMove s (4, 4) =
     Inr (10125
          + (if canWinBoard (board s ! 4) (opponentOf (currentPlayer s)) = Some 4
             then 80 else 0)
          - (if canWinBoard (board s ! 4) (opponentOf (currentPlayer s)) \<noteq> None
             then 100 else 0))"
proof -
  from assms(1) have len: "4 < length (board s)" "4 < length (board s ! 4)"
    "4 < length (smallBoardStatuses s)"
    by (simp_all add: wf_state_def list_all_length)
  from getValidMoves_undecided [OF assms(1-3)]
  have und: "winner (smallBoardStatuses s ! 4) = None" "\<not> isDraw (smallBoardStatuses s ! 4)"
    by (simp_all add: decided_def)
  let ?r = "checkSmallBoardStatus ((board s ! 4)[4 := Some (currentPlayer s)])"
  from assms(4) have won: "winner ?r = Some (currentPlayer s)" by simp
  from assms(5) obtain g where
    g: "checkGlobalWinner ((smallBoardStatuses s)[4 := ?r]) = Inr g"
      "winner g = Some (currentPlayer s)"
    by (auto split: sum.splits)
  have wf: "winFactor s 4 ?r = Inr 10120"
    using won g len by (simp add: winFactor_def jsSet_def)
  have df: "destinationFactor s (opponentOf (currentPlayer s)) 4 =
      Inr (if canWinBoard (board s ! 4) (opponentOf (currentPlayer s)) \<noteq> None
           then - 100 else 0)"
    using und len by (simp add: destinationFactor_def jsAt_def)
  have pf: "positionFactor 4 = 5" by (simp add: positionFactor_def)
  show ?thesis
    using len wf df pf
    by (simp add: evaluateMove_def jsAt_def jsSet_def blockFactor_def Let_def)
qed


lemma metaWinState_moves:
  "wf_state metaWinState
   \<and> getValidMoves metaWinState =
       Inr [(4, 1), (4, 2), (4, 3), (4, 4), (4, 5), (4, 6), (4, 7)]"
proof -
  have wf: "wf_state metaWinState"
    by (simp add: wf_state_def metaWinState_def)
  have e: "emptyCellsOf metaWinState 4 =
      [(4, 1), (4, 2), (4, 3), (4, 4), (4, 5), (4, 6), (4, 7)]"
    by (simp add: emptyCellsOf_def metaWinState_def upt_rec)
  have "getValidMoves metaWinState = Inr (emptyCellsOf metaWinState 4)"
    by (rule getValidMoves_forced [OF wf]) (simp_all add: metaWinState_def decided_def)
  with wf e show ?thesis by simp
qed

lemma metaWinThreatState_moves:
  "wf_state metaWinThreatState
   \<and> getValidMoves metaWinThreatState = Inr [(4, 1), (4, 3), (4, 4), (4, 5), (4, 7)]"
proof -
  have wf: "wf_state metaWinThreatState"
    by (simp add: wf_state_def metaWinThreatState_def metaWinState_def)
  have e: "emptyCellsOf metaWinThreatState 4 = [(4, 1), (4, 3), (4, 4), (4, 5), (4, 7)]"
    by (simp add: emptyCellsOf_def metaWinThreatState_def metaWinState_def upt_rec)
  have "getValidMoves metaWinThreatState = Inr (emptyCellsOf metaWinThreatState 4)"
    by (rule getValidMoves_forced [OF wf])
       (simp_all add: metaWinThreatState_def metaWinState_def decided_def)
  with wf e show ?thesis by simp
qed

lemmas meta_eval =
  checkGlobalWinner_def WINNING_COMBINATIONS_def jsAt_def decided_def

theorem evaluateMove_centre_win_witness:
  "wf_state metaWinState
   \<and> getValidMoves metaWinState =
       Inr [(4, 1), (4, 2), (4, 3), (4, 4), (4, 5), (4, 6), (4, 7)]
   \<and> winsSubBoard metaWinState (currentPlayer metaWinState) (4, 4)
   \<and> completesMetaWin metaWinState (4, 4)
   \<and> evaluateMove metaWinState (4, 4) = Inr 10125"
proof -
  have w: "winsSubBoard metaWinState (currentPlayer metaWinState) (4, 4)"
    by (simp add: metaWinState_def board_eval)
  have r: "checkSmallBoardStatus
      [Some Player_X, None, None, None, Some Player_X, None, None, None, Some Player_X]
      = \<lparr>winner = Some Player_X, isDraw = False\<rparr>"
    by (simp add: board_eval)
  have m: "completesMetaWin metaWinState (4, 4)"
    by (simp add: metaWinState_def r meta_eval)
  have c: "canWinBoard (board metaWinState ! 4) (opponentOf (currentPlayer metaWinState)) = None"
    by (simp add: metaWinState_def opponentOf_def canWinBoard_def board_eval)
  note mv = metaWinState_moves
  from evaluateMove_centre_win [OF conjunct1 [OF mv] conjunct2 [OF mv] _ w m] c
  have "evaluateMove metaWinState (4, 4) = Inr 10125" by simp
  with mv w m show ?thesis by blast
qed

text \<open>
  C9 as stated fails: here the centre move is legal, wins board 4 and the game, and
  scores 10105, the block bonus and the destination penalty included.
\<close>

theorem evaluateMove_centre_win_threat:
  "getValidMoves metaWinThreatState = Inr [(4, 1), (4, 3), (4, 4), (4, 5), (4, 7)]
   \<and> winsSubBoard metaWinThreatState (currentPlayer metaWinThreatState) (4, 4)
   \<and> completesMetaWin metaWinThreatState (4, 4)
   \<and> evaluateMove metaWinThreatState (4, 4) = Inr 10105
   \<and> evaluateMove metaWinThreatState (4, 4) \<noteq> Inr 10125"
proof -
  have w: "winsSubBoard metaWinThreatState (currentPlayer metaWinThreatState) (4, 4)"
    by (simp add: metaWinThreatState_def metaWinState_def board_eval)
  have r: "checkSmallBoardStatus
      [Some Player_X, None, Some Player_O, None, Some Player_X, None,
       Some Player_O, None, Some Player_X]
      = \<lparr>winner = Some Player_X, isDraw = False\<rparr>"
    by (simp add: board_eval)
  have m: "completesMetaWin metaWinThreatState (4, 4)"
    by (simp add: metaWinThreatState_def metaWinState_def r meta_eval)
  have c: "canWinBoard
      [Some Player_X, None, Some Player_O, None, None, None,
       Some Player_O, None, Some Player_X] Player_O = Some 4"
    by (simp add: canWinBoard_def board_eval)
  have g: "checkGlobalWinner
      [\<lparr>winner = Some Player_X, isDraw = False\<rparr>, \<lparr>winner = None, isDraw = False\<rparr>,
       \<lparr>winner = None, isDraw = False\<rparr>, \<lparr>winner = None, isDraw = False\<rparr>,
       \<lparr>winner = Some Player_X, isDraw = False\<rparr>, \<lparr>winner = None, isDraw = False\<rparr>,
       \<lparr>winner = None, isDraw = False\<rparr>, \<lparr>winner = None, isDraw = False\<rparr>,
       \<lparr>winner = Some Player_X, isDraw = False\<rparr>]
      = Inr \<lparr>winner = Some Player_X, isDraw = False\<rparr>"
    by (simp add: meta_eval)
  have e: "evaluateMove metaWinThreatState (4, 4) = Inr 10105"
    by (simp add: evaluateMove_def metaWinThreatState_def metaWinState_def jsAt_def jsSet_def
        winFactor_def blockFactor_def destinationFactor_def positionFactor_def
        opponentOf_def r c g Let_def)
  from metaWinThreatState_moves w m e show ?thesis by simp
qed

section \<open>The Advanced tier\<close>

lemma canWinBoard_empty: "canWinBoard (replicate 9 None) player = None"
  by (simp add: canWinBoard_def board_eval numeral_eq_Suc)

lemma canWinBoard_opening:
  "canWinBoard [None, None, None, None, Some Player_X, None, None, None, None] Player_X = None"
  by (simp add: canWinBoard_def board_eval)

lemma evaluateMove_opening:
  assumes "c \<in> set [0, 1, 2, 3, 5, 6, 7, 8]"
  shows "evaluateMove stateAfterOpening (4, c) = Inr (positionFactor c)"
proof -
  have b4: "board stateAfterOpening ! 4 =
      [None, None, None, None, Some Player_X, None, None, None, None]"
    by (simp add: stateAfterOpening_def)
  have bc: "board stateAfterOpening ! c = replicate 9 None" "c < 9"
    using assms by (auto simp: stateAfterOpening_def)
  have st: "smallBoardStatuses stateAfterOpening ! c = \<lparr>winner = None, isDraw = False\<rparr>"
    using bc(2) by (simp add: stateAfterOpening_def)
  have len: "length (board stateAfterOpening) = 9"
    "length (smallBoardStatuses stateAfterOpening) = 9"
    by (simp_all add: stateAfterOpening_def)
  have cp: "currentPlayer stateAfterOpening = Player_O"
    by (simp add: stateAfterOpening_def)
  have nowin: "winner (checkSmallBoardStatus
      ([None, None, None, None, Some Player_X, None, None, None, None][c := Some Player_O]))
      \<noteq> Some Player_O"
    using assms by (auto simp: board_eval)
  show ?thesis
    using bc(2) nowin
    by (simp add: evaluateMove_def winFactor_def blockFactor_def destinationFactor_def
        jsAt_def jsSet_def len b4 bc(1) st cp opponentOf_def canWinBoard_empty
        canWinBoard_opening Let_def)
qed


lemma evaluateMove_opening_all:
  "evaluateMove stateAfterOpening (4, 0) = Inr 3"
  "evaluateMove stateAfterOpening (4, 1) = Inr 0"
  "evaluateMove stateAfterOpening (4, 2) = Inr 3"
  "evaluateMove stateAfterOpening (4, 3) = Inr 0"
  "evaluateMove stateAfterOpening (4, 5) = Inr 0"
  "evaluateMove stateAfterOpening (4, 6) = Inr 3"
  "evaluateMove stateAfterOpening (4, 7) = Inr 0"
  "evaluateMove stateAfterOpening (4, 8) = Inr 3"
  by (simp_all add: evaluateMove_opening positionFactor_def)

lemma noiseExample_values:
  "noiseExample r 0 = 0" "noiseExample r (Suc 0) = 0"
  "noiseExample r (Suc (Suc 0)) = 1 / 64"
  "noiseExample r (Suc (Suc (Suc 0))) = 0"
  "noiseExample r (Suc (Suc (Suc (Suc 0)))) = 0"
  "noiseExample r (Suc (Suc (Suc (Suc (Suc 0))))) = 0"
  "noiseExample r (Suc (Suc (Suc (Suc (Suc (Suc 0)))))) = 0"
  "noiseExample r (Suc (Suc (Suc (Suc (Suc (Suc (Suc 0))))))) = 0"
  "noiseExample r (Suc (Suc (Suc (Suc (Suc (Suc (Suc (Suc 0)))))))) = r"
  by (simp_all add: noiseExample_def eval_nat_numeral)

lemma advancedLoop_opening:
  "advancedLoop stateAfterOpening (noiseExample r) 0
     [(4, 0), (4, 1), (4, 2), (4, 3), (4, 5), (4, 6), (4, 7), (4, 8)] None []
   = Inr [(4, 2), (4, 6), (4, 8)]"
  by (simp add: evaluateMove_opening_all noiseExample_values Let_def del: One_nat_def)

lemma noisyScores_opening:
  "noisyScores stateAfterOpening (noiseExample r) 0
     [(4, 0), (4, 1), (4, 2), (4, 3), (4, 5), (4, 6), (4, 7), (4, 8)]
   = [((4, 0), 3), ((4, 1), 0), ((4, 2), 3 + 5 / 64), ((4, 3), 0),
      ((4, 5), 0), ((4, 6), 3), ((4, 7), 0), ((4, 8), 3)]"
  by (simp add: evaluateMove_opening_all noiseExample_values del: One_nat_def)

lemma nearMaxMoves_opening:
  "nearMaxMoves
     [((4, 0), 3), ((4, 1), 0), ((4, 2), 3 + 5 / 64), ((4, 3), 0),
      ((4, 5), 0), ((4, 6), 3), ((4, 7), 0), ((4, 8), 3)]
   = [(4, 0), (4, 2), (4, 6), (4, 8)]"
  by (simp add: nearMaxMoves_def)

lemma getAiMove_opening:
  "getAiMove (noiseExample r) stateAfterOpening =
     Inr (randomPick r [(4, 2), (4, 6), (4, 8)])"
proof -
  have "aiDifficulty stateAfterOpening = Advanced"
    by (simp add: stateAfterOpening_def)
  with stateAfterOpening_moves show ?thesis
    by (simp add: getAiMove_def advancedLoop_opening noiseExample_values
          del: advancedLoop.simps One_nat_def)
qed

text \<open>
  C4 at a concrete input. After the opening move the Advanced tier has eight legal
  moves; with the noise of \<open>noiseExample\<close> the corner moves \<open>(4, 0)\<close>, \<open>(4, 6)\<close> and
  \<open>(4, 8)\<close> score 3 and the corner move \<open>(4, 2)\<close> scores 3.078125, so all four are within
  0.1 of the greatest score. The loop keeps \<open>(4, 2)\<close>, \<open>(4, 6)\<close> and \<open>(4, 8)\<close> only: the
  move \<open>(4, 0)\<close> was dropped when \<open>(4, 2)\<close> became the best, and no value of the last
  random number makes \<open>getAiMove\<close> return it.
\<close>

theorem advanced_drops_earlier_near_best:
  "getValidMoves stateAfterOpening =
     Inr [(4, 0), (4, 1), (4, 2), (4, 3), (4, 5), (4, 6), (4, 7), (4, 8)]
   \<and> nearMaxMoves (noisyScores stateAfterOpening (noiseExample r) 0
        [(4, 0), (4, 1), (4, 2), (4, 3), (4, 5), (4, 6), (4, 7), (4, 8)])
      = [(4, 0), (4, 2), (4, 6), (4, 8)]
   \<and> advancedLoop stateAfterOpening (noiseExample r) 0
        [(4, 0), (4, 1), (4, 2), (4, 3), (4, 5), (4, 6), (4, 7), (4, 8)] None []
      = Inr [(4, 2), (4, 6), (4, 8)]
   \<and> getAiMove (noiseExample r) stateAfterOpening \<noteq> Inr (Some (4, 0))"
proof -
  have "randomPick r [(4, 2), (4, 6), (4, 8)] \<noteq> Some ((4, 0) :: Move)"
  proof
    assume "randomPick r [(4, 2), (4, 6), (4, 8)] = Some ((4, 0) :: Move)"
    from randomPick_member [OF this] show False by simp
  qed
  then have "getAiMove (noiseExample r) stateAfterOpening \<noteq> Inr (Some (4, 0))"
    by (simp add: getAiMove_opening)
  with stateAfterOpening_moves advancedLoop_opening [of r]
  show ?thesis
    unfolding noisyScores_opening nearMaxMoves_opening by simp
qed

end
